theory Spec2Isabelle
  imports Main
begin

section \<open>Bytes and buffers\<close>

text \<open>
  A C++ \<^verbatim>\<open>char\<close> is a HOL \<^typ>\<open>char\<close> (eight bits); a \<^verbatim>\<open>std::string\<close> and a
  \<^verbatim>\<open>std::vector<char>\<close> are \<^typ>\<open>string\<close>, that is, lists of bytes. Sizes are natural
  numbers wherever the source cannot overflow them.
\<close>

definition NUL :: char where
  "NUL = CHR 0x00"

text \<open>\<^verbatim>\<open>v.resize(n)\<close>: cuts the vector, or fills it up with zero bytes.\<close>

definition resize :: "string \<Rightarrow> nat \<Rightarrow> string" where
  "resize v n = take n v @ replicate (n - length v) NUL"

text \<open>
  \<^verbatim>\<open>memcpy(&v[0] + off, data, length)\<close>: overwrites the bytes of \<open>v\<close> from \<open>off\<close> on. The
  source only calls it with \<open>off + length \<le> v.size()\<close>, right after the resize that makes
  the room.
\<close>

definition memcpy :: "string \<Rightarrow> nat \<Rightarrow> string \<Rightarrow> string" where
  "memcpy v off data = take off v @ data @ drop (off + length data) v"

section \<open>The multipart field (MPFD::Field)\<close>

text \<open>
  Modelled from the spec: the constants of \<^verbatim>\<open>MPFDParser/Field.h\<close> and
  \<^verbatim>\<open>MPFDParser/Parser.h\<close>, which are not among the sources. The spec gives the type tag as
  \<open>Text | File\<close> and the storage mode as memory or filesystem; the source compares the
  tag with \<open>0\<close> (unset) and tests \<^verbatim>\<open>type > 0\<close> for a set one, so the two tags are the
  distinct positive integers 1 and 2, and so are the two storage modes.
\<close>

definition TextType :: int where
  "TextType = 1"

definition FileType :: int where
  "FileType = 2"

definition StoreUploadedFilesInFilesystem :: int where
  "StoreUploadedFilesInFilesystem = 1"

definition StoreUploadedFilesInMemory :: int where
  "StoreUploadedFilesInMemory = 2"

text \<open>
  The members of the class. \<open>file_stream\<close> is the output stream \<^verbatim>\<open>file\<close>: \<open>None\<close> while it is closed, the
  path it was opened on while it is open.
\<close>

record Field =
  type :: int
  FieldContent :: string
  TempDir :: string
  TempFile :: string
  FileName :: string
  FileContentType :: string
  WhereToStoreUploadedFiles :: int
  file_stream :: "string option"

text \<open>
  \<^verbatim>\<open>MPFD::Exception\<close> carries its message. \<open>ReadPastEnd\<close> is not an exception of the
  source: it marks a read that runs over the end of a buffer, which the source does not
  check.
\<close>

datatype MPFD_error = Exception string | ReadPastEnd

text \<open>
  The part of the file system the field uses: the files by path, and whether a path can
  be created (the output stream's \<^verbatim>\<open>open\<close> fails otherwise).
\<close>

record filesystem =
  files :: "string \<rightharpoonup> string"
  creatable :: "string \<Rightarrow> bool"

text \<open>The constructor sets the tag to 0 and leaves every other member as it is built.\<close>

definition new_Field :: "int \<Rightarrow> Field" where
  "new_Field w = \<lparr>type = 0, FieldContent = [], TempDir = [], TempFile = [], FileName = [],
     FileContentType = [], WhereToStoreUploadedFiles = w, file_stream = None\<rparr>"

definition SetType :: "int \<Rightarrow> Field \<Rightarrow> MPFD_error + Field" where
  "SetType t f =
     (if t = TextType \<or> t = FileType then Inr (f\<lparr>type := t\<rparr>)
      else Inl (Exception ''Trying to set type of field, but type is incorrect.''))"

definition GetType :: "Field \<Rightarrow> MPFD_error + int" where
  "GetType f =
     (if type f > 0 then Inr (type f)
      else Inl (Exception ''Trying to get type of field, but no type was set.''))"

text \<open>\<^verbatim>\<open>ss << "MPFD_Temp_" << i\<close> writes \<open>i\<close> in decimal.\<close>

function show_nat :: "nat \<Rightarrow> string" where
  "show_nat n =
     (if n < 10 then [char_of (48 + n)] else show_nat (n div 10) @ [char_of (48 + n mod 10)])"
  by pat_completeness auto
termination
  by (relation "measure id") auto

definition temp_name :: "nat \<Rightarrow> string" where
  "temp_name i = ''MPFD_Temp_'' @ show_nat i"

text \<open>
  The probing loop of \<^verbatim>\<open>AcceptSomeData\<close>: it tries \<^verbatim>\<open>MPFD_Temp_i\<close> for \<open>i = 1, 2, \<dots>\<close>
  and stops at the first name that cannot be opened for reading. It does not return when
  every name exists, hence the \<open>option\<close>.
\<close>

partial_function (option) probe :: "filesystem \<Rightarrow> string \<Rightarrow> nat \<Rightarrow> nat option" where
  "probe fs dir i =
     (if files fs (dir @ ''/'' @ temp_name i) \<noteq> None then probe fs dir (i + 1) else Some i)"

declare probe.simps [code]

text \<open>
  \<^verbatim>\<open>AcceptSomeData(data, length)\<close>, with \<open>data\<close> the \<open>length\<close> bytes passed. The text branch
  takes the size of the buffer, makes room for the chunk and one more byte, copies the
  chunk to the old end and zeroes the last byte.
\<close>

definition AcceptSomeData ::
  "string \<Rightarrow> Field \<Rightarrow> filesystem \<Rightarrow> (MPFD_error + Field \<times> filesystem) option" where
  "AcceptSomeData data f fs =
     (if type f = TextType then
        (let FieldContentLength = length (FieldContent f);
             newFieldContentLength = FieldContentLength + length data + 1;
             v = resize (FieldContent f) newFieldContentLength;
             v = memcpy v FieldContentLength data;
             v = v[newFieldContentLength - 1 := NUL]
         in Some (Inr (f\<lparr>FieldContent := v\<rparr>, fs)))
      else if type f = FileType then
        (if WhereToStoreUploadedFiles f = StoreUploadedFilesInFilesystem then
           (if length (TempDir f) > 0 then
              (case (if file_stream f = None then
                       (case probe fs (TempDir f) 1 of
                          None \<Rightarrow> None
                        | Some i \<Rightarrow>
                            (let tempfile = TempDir f @ ''/'' @ temp_name i;
                                 f' = f\<lparr>TempFile := temp_name i\<rparr>
                             in if creatable fs tempfile
                                then Some (f'\<lparr>file_stream := Some tempfile\<rparr>,
                                           fs\<lparr>files := (files fs)(tempfile \<mapsto> [])\<rparr>)
                                else Some (f', fs)))
                     else Some (f, fs)) of
                 None \<Rightarrow> None
               | Some (f1, fs1) \<Rightarrow>
                   (case file_stream f1 of
                      Some path \<Rightarrow>
                        Some (Inr (f1, fs1\<lparr>files := (files fs1)
                          (path \<mapsto> (case files fs1 path of None \<Rightarrow> [] | Some c \<Rightarrow> c) @ data)\<rparr>))
                    | None \<Rightarrow>
                        Some (Inl (Exception
                          (''Cannot write to file '' @ TempDir f1 @ ''/'' @ TempFile f1)))))
            else Some (Inl (Exception
                   ''Trying to AcceptSomeData for a file but no TempDir is set.'')))
         else
           (let FieldContentLength = length (FieldContent f);
                newFieldContentLength = FieldContentLength + length data;
                v = resize (FieldContent f) newFieldContentLength;
                v = memcpy v FieldContentLength data
            in Some (Inr (f\<lparr>FieldContent := v\<rparr>, fs))))
      else Some (Inl (Exception ''Trying to AcceptSomeData but no type was set.'')))"

definition SetTempDir :: "string \<Rightarrow> Field \<Rightarrow> Field" where
  "SetTempDir dir f = f\<lparr>TempDir := dir\<rparr>"

definition SetFileName :: "string \<Rightarrow> Field \<Rightarrow> Field" where
  "SetFileName name f = f\<lparr>FileName := name\<rparr>"

definition SetUploadedFilesStorage :: "int \<Rightarrow> Field \<Rightarrow> Field" where
  "SetUploadedFilesStorage where_to f = f\<lparr>WhereToStoreUploadedFiles := where_to\<rparr>"

definition SetFileContentType :: "string \<Rightarrow> Field \<Rightarrow> Field" where
  "SetFileContentType t f = f\<lparr>FileContentType := t\<rparr>"

text \<open>
  \<^verbatim>\<open>std::string(&FieldContent[0])\<close> reads the buffer as a C string: the bytes before the
  first zero byte. With no zero byte in the buffer the read leaves it.
\<close>

definition c_string :: "string \<Rightarrow> MPFD_error + string" where
  "c_string buf = (if NUL \<in> set buf then Inr (takeWhile (\<lambda>c. c \<noteq> NUL) buf) else Inl ReadPastEnd)"

definition GetTextTypeContent :: "Field \<Rightarrow> MPFD_error + string" where
  "GetTextTypeContent f =
     (if type f = 0 then
        Inl (Exception ''Trying to get text content of the field, but no type was set.'')
      else if type f \<noteq> TextType then
        Inl (Exception ''Trying to get content of the field, but the type is not text.'')
      else if FieldContent f = [] then Inr []
      else c_string (FieldContent f))"

definition GetFileContentSize :: "Field \<Rightarrow> MPFD_error + nat" where
  "GetFileContentSize f =
     (if type f = 0 then
        Inl (Exception ''Trying to get file content size, but no type was set.'')
      else if type f = FileType then
        (if WhereToStoreUploadedFiles f = StoreUploadedFilesInMemory
         then Inr (length (FieldContent f))
         else Inl (Exception
           ''Trying to get file content size, but uploaded files are stored in filesystem.''))
      else Inl (Exception ''Trying to get file content size, but the type is not file.''))"

text \<open>A run of \<^verbatim>\<open>AcceptSomeData\<close> calls, one per chunk, stopping at the first exception.\<close>

fun AcceptChunks ::
  "string list \<Rightarrow> Field \<Rightarrow> filesystem \<Rightarrow> (MPFD_error + Field \<times> filesystem) option" where
  "AcceptChunks [] f fs = Some (Inr (f, fs))"
| "AcceptChunks (c # cs) f fs =
     (case AcceptSomeData c f fs of
        None \<Rightarrow> None
      | Some (Inl e) \<Rightarrow> Some (Inl e)
      | Some (Inr (f', fs')) \<Rightarrow> AcceptChunks cs f' fs')"


section \<open>The operations of std::string the request uses\<close>

text \<open>
  A search returns \<open>None\<close> for \<^verbatim>\<open>npos\<close>. \<open>index_from P cs i\<close> is the index of the first
  character of \<open>cs\<close> with \<open>P\<close>, counted from \<open>i\<close>.
\<close>

fun index_from :: "(char \<Rightarrow> bool) \<Rightarrow> string \<Rightarrow> nat \<Rightarrow> nat option" where
  "index_from P [] i = None"
| "index_from P (c # cs) i = (if P c then Some i else index_from P cs (Suc i))"

text \<open>\<^verbatim>\<open>s.find_first_of(chars, pos)\<close> and \<^verbatim>\<open>s.find(c, pos)\<close>.\<close>

definition find_first_of :: "string \<Rightarrow> string \<Rightarrow> nat \<Rightarrow> nat option" where
  "find_first_of s chars pos = index_from (\<lambda>c. c \<in> set chars) (drop pos s) pos"

definition find_char :: "string \<Rightarrow> char \<Rightarrow> nat \<Rightarrow> nat option" where
  "find_char s c pos = index_from (\<lambda>x. x = c) (drop pos s) pos"

text \<open>
  \<^verbatim>\<open>s.substr(pos, n)\<close>, \<^verbatim>\<open>s.substr(pos)\<close> and \<^verbatim>\<open>s.erase(pos, n)\<close>. The three throw
  \<^verbatim>\<open>out_of_range\<close> when \<open>pos\<close> is beyond the size and cut \<open>n\<close> to what is left otherwise.
  Every call of the source has \<open>pos\<close> at most the size: \<open>pos\<close> is 0, or one more than an
  index that a search has just returned.
\<close>

definition substr :: "string \<Rightarrow> nat \<Rightarrow> nat \<Rightarrow> string" where
  "substr s pos n = take n (drop pos s)"

definition substr_from :: "string \<Rightarrow> nat \<Rightarrow> string" where
  "substr_from s pos = drop pos s"

definition erase :: "string \<Rightarrow> nat \<Rightarrow> nat \<Rightarrow> string" where
  "erase s pos n = take pos s @ drop (pos + n) s"

text \<open>\<^verbatim>\<open>s[i]\<close> for \<open>i\<close> up to the size: at the size it is the terminating zero byte.\<close>

definition at :: "string \<Rightarrow> nat \<Rightarrow> char" where
  "at s i = (if i < length s then s ! i else NUL)"

lemma index_from_bounds: "index_from P cs i = Some j \<Longrightarrow> i \<le> j \<and> j < i + length cs"
proof (induction cs arbitrary: i)
  case Nil
  then show ?case by simp
next
  case (Cons c cs)
  show ?case
  proof (cases "P c")
    case True
    with Cons.prems show ?thesis by simp
  next
    case False
    with Cons.prems have "index_from P cs (Suc i) = Some j" by simp
    from Cons.IH [OF this] show ?thesis by simp
  qed
qed

lemma find_first_of_bounds:
  "find_first_of s chars pos = Some j \<Longrightarrow> pos \<le> j \<and> j < length s"
  by (auto simp: find_first_of_def dest!: index_from_bounds)

lemma find_char_bounds: "find_char s c pos = Some j \<Longrightarrow> pos \<le> j \<and> j < length s"
  by (auto simp: find_char_def dest!: index_from_bounds)

section \<open>The request (HttpRequest)\<close>

subsection \<open>Decoding the parameters\<close>

text \<open>
  The first loop of \<^verbatim>\<open>decodParams\<close> takes the at most two characters after a \<open>%\<close>
  (\<^verbatim>\<open>substr\<close> cuts the count to what is left) and reads them through a string stream
  in hexadecimal mode into \<^verbatim>\<open>unsigned int specar\<close>, which is declared without a value.
  It tests neither what it took nor whether the extraction succeeded, and it has no
  error path: whatever \<open>specar\<close> holds after the extraction is written into the string.
\<close>

definition hex_digit :: "char \<Rightarrow> nat option" where
  "hex_digit c =
     (let n = (of_char c :: nat)
      in if 48 \<le> n \<and> n \<le> 57 then Some (n - 48)
         else if 97 \<le> n \<and> n \<le> 102 then Some (n - 87)
         else if 65 \<le> n \<and> n \<le> 70 then Some (n - 55)
         else None)"

text \<open>The white space of the C locale: the space and the characters 9 to 13.\<close>

definition isspace :: "char \<Rightarrow> bool" where
  "isspace c = (c = CHR '' '' \<or> (9 \<le> (of_char c :: nat) \<and> (of_char c :: nat) \<le> 13))"

text \<open>The value of the hexadecimal digits at the head of a text, from \<open>acc\<close> on.\<close>

fun hex_run :: "int \<Rightarrow> string \<Rightarrow> int" where
  "hex_run acc [] = acc"
| "hex_run acc (c # cs) =
     (case hex_digit c of None \<Rightarrow> acc | Some d \<Rightarrow> hex_run (16 * acc + int d) cs)"

text \<open>
  \<^verbatim>\<open>ss << std::hex << hexChar.c_str(); ss >> specar;\<close> for the at most two characters
  of \<open>hexChar\<close>, as the stream library of C++11 does it. The stream receives the
  characters before the first zero byte. The extraction skips white space; when nothing
  is left, it fails before it assigns anything, and \<open>specar\<close> keeps what it held: \<open>None\<close>.
  Otherwise it reads an optional sign and the hexadecimal digits that follow, and assigns
  their value to \<open>specar\<close>, negated modulo \<open>2\<^sup>3\<^sup>2\<close> after a minus sign; with no digit
  there the conversion fails and assigns 0. A prefix \<open>0x\<close>, which the extraction accepts
  too, has no digit after it within two characters, and gives 0 as well.
\<close>

definition extract_hex :: "string \<Rightarrow> int option" where
  "extract_hex hexChar =
     (case dropWhile isspace (takeWhile (\<lambda>c. c \<noteq> NUL) hexChar) of
        [] \<Rightarrow> None
      | c # cs \<Rightarrow>
          if c = CHR ''-'' then Some ((- hex_run 0 cs) mod 2 ^ 32)
          else if c = CHR ''+'' then Some (hex_run 0 cs)
          else Some (hex_run 0 (c # cs)))"

text \<open>
  The first loop: \<open>paramstr\<close> is rewritten in place and \<open>start\<close> moves behind each special
  character handled, so that a character written by the loop is not looked at again.
  \<open>unassigned end\<close> is the value that the variable \<open>specar\<close> of the iteration at \<open>end\<close>
  holds when the extraction has assigned nothing to it: it is whatever the memory of
  the variable held, which the program does not determine, so it is a parameter here.
  \<^verbatim>\<open>paramstr[end+1]\<close> is read at the size of the string at most, where it is the
  terminating zero byte; \<^verbatim>\<open>(char)specar\<close> keeps the low eight bits.
\<close>

function decodParams_loop1 :: "(nat \<Rightarrow> int) \<Rightarrow> string \<Rightarrow> nat \<Rightarrow> string" where
  "decodParams_loop1 unassigned paramstr start =
     (case find_first_of paramstr ''%+'' start of
        None \<Rightarrow> paramstr
      | Some end \<Rightarrow>
          if paramstr ! end = CHR ''%'' then
            if at paramstr (end + 1) = CHR ''%'' then
              decodParams_loop1 unassigned (erase paramstr (end + 1) 1) (end + 1)
            else
              (let hexChar = substr paramstr (end + 1) 2;
                   specar = (case extract_hex hexChar of
                               Some v \<Rightarrow> v
                             | None \<Rightarrow> unassigned end)
               in decodParams_loop1 unassigned
                    (erase (paramstr[end := char_of specar]) (end + 1) 2) (end + 1))
          else decodParams_loop1 unassigned (paramstr[end := CHR '' '']) (end + 1))"
  by pat_completeness auto
termination
  by (relation "measure (\<lambda>(unassigned, paramstr, start). length paramstr - start)")
     (auto simp: erase_def dest!: find_first_of_bounds)

declare decodParams_loop1.simps [simp del]

text \<open>For the examples: a memory that holds 0 wherever \<open>specar\<close> is placed.\<close>

definition zero_memory :: "nat \<Rightarrow> int" where
  "zero_memory end = 0"

text \<open>The body of the second loop, from \<^verbatim>\<open>theParam.find('=')\<close> on.\<close>

definition store_param :: "string \<Rightarrow> (string \<rightharpoonup> string) \<Rightarrow> (string \<rightharpoonup> string)" where
  "store_param theParam parameters =
     (case find_char theParam CHR ''='' 0 of
        None \<Rightarrow> parameters(theParam \<mapsto> [])
      | Some posEq \<Rightarrow>
          parameters(substr theParam 0 posEq \<mapsto> substr_from theParam (posEq + 1)))"

text \<open>
  The second loop. \<open>islastParam\<close> is the case \<open>None\<close> of the search for \<open>&\<close>, where \<open>end\<close>
  is the size of the string and the loop stops after storing the parameter.
\<close>

function decodParams_loop2 ::
  "string \<Rightarrow> nat \<Rightarrow> (string \<rightharpoonup> string) \<Rightarrow> (string \<rightharpoonup> string)" where
  "decodParams_loop2 paramstr start parameters =
     (case find_char paramstr CHR ''&'' start of
        None \<Rightarrow> store_param (substr paramstr start (length paramstr - start)) parameters
      | Some end \<Rightarrow>
          decodParams_loop2 paramstr (end + 1)
            (store_param (substr paramstr start (end - start)) parameters))"
  by pat_completeness auto
termination
  by (relation "measure (\<lambda>(paramstr, start, parameters). length paramstr - start)")
     (auto dest!: find_char_bounds)

declare decodParams_loop2.simps [simp del]

text \<open>
  \<^verbatim>\<open>decodParams\<close>: the two loops, one after the other, on a copy of the raw string. The
  function returns nothing and always returns; the result is the map it has filled.
\<close>

definition decodParams ::
  "(nat \<Rightarrow> int) \<Rightarrow> string \<Rightarrow> (string \<rightharpoonup> string) \<Rightarrow> (string \<rightharpoonup> string)" where
  "decodParams unassigned p parameters =
     decodParams_loop2 (decodParams_loop1 unassigned p 0) 0 parameters"

subsection \<open>Decoding the cookies\<close>

text \<open>
  \<^verbatim>\<open>iswgraph\<close> in the C locale: the printable characters other than the space. The
  source passes it a \<^verbatim>\<open>char\<close>; a byte of 128 or more is not a graphic character there.
\<close>

definition iswgraph :: "char \<Rightarrow> bool" where
  "iswgraph c = (33 \<le> (of_char c :: nat) \<and> (of_char c :: nat) \<le> 126)"

text \<open>The loop that moves \<open>firstC\<close> over the characters before the key.\<close>

function firstC_loop :: "string \<Rightarrow> nat \<Rightarrow> nat \<Rightarrow> nat" where
  "firstC_loop theCookie posEq firstC =
     (if \<not> iswgraph (at theCookie firstC) \<and> firstC < posEq
      then firstC_loop theCookie posEq (firstC + 1) else firstC)"
  by pat_completeness auto
termination
  by (relation "measure (\<lambda>(theCookie, posEq, firstC). posEq - firstC)") auto

text \<open>
  The body of the loop of \<^verbatim>\<open>decodCookies\<close>, for one fragment. The two differences are
  taken in \<^verbatim>\<open>size_t\<close>; neither wraps, since \<open>firstC \<le> posEq < length theCookie\<close>.
\<close>

definition decodCookie :: "string \<Rightarrow> (string \<rightharpoonup> string) \<Rightarrow> (string \<rightharpoonup> string)" where
  "decodCookie theCookie cookies =
     (case find_char theCookie CHR ''='' 0 of
        None \<Rightarrow> cookies
      | Some posEq \<Rightarrow>
          (let firstC = firstC_loop theCookie posEq 0
           in if posEq - firstC > 0 \<and> length theCookie - posEq > 0
              then cookies(substr theCookie firstC (posEq - firstC) \<mapsto>
                     substr theCookie (posEq + 1) (length theCookie - posEq))
              else cookies))"

text \<open>
  \<^verbatim>\<open>while (std::getline(ss, theCookie, ';'))\<close> over what is left of the stream: at the end
  of the stream \<^verbatim>\<open>getline\<close> fails; before it, it takes the characters up to the next
  \<open>;\<close> and drops that \<open>;\<close>.
\<close>

function decodCookies_loop :: "string \<Rightarrow> (string \<rightharpoonup> string) \<Rightarrow> (string \<rightharpoonup> string)" where
  "decodCookies_loop ss cookies =
     (if ss = [] then cookies
      else
        (let theCookie = takeWhile (\<lambda>c. c \<noteq> CHR '';'') ss
         in decodCookies_loop (drop (length theCookie + 1) ss) (decodCookie theCookie cookies)))"
  by pat_completeness auto
termination
  by (relation "measure (\<lambda>(ss, cookies). length ss)") auto

definition decodCookies :: "string \<Rightarrow> (string \<rightharpoonup> string) \<Rightarrow> (string \<rightharpoonup> string)" where
  "decodCookies c cookies = decodCookies_loop c cookies"

subsection \<open>The session store\<close>

text \<open>
  Modelled from the spec: the class \<^verbatim>\<open>HttpSession\<close>, whose header is not among the
  sources. The spec gives the store as a process-wide mapping from a session identifier
  to the named attributes of the session, with the operations \<open>find(id) -> bool\<close> and
  \<open>remove(id)\<close>: \<open>find\<close> tells whether the identifier is that of a live session, and
  \<open>remove\<close> takes the session out of the store and returns nothing. An attribute value is
  an opaque pointer, here a number.
\<close>

type_synonym session_store = "string \<rightharpoonup> (string \<rightharpoonup> nat)"

definition HttpSession_find :: "string \<Rightarrow> session_store \<Rightarrow> bool" where
  "HttpSession_find sid sessions = (sessions sid \<noteq> None)"

definition HttpSession_remove :: "string \<Rightarrow> session_store \<Rightarrow> session_store" where
  "HttpSession_remove sid sessions = sessions(sid := None)"

definition HttpSession_getAttribute :: "string \<Rightarrow> string \<Rightarrow> session_store \<Rightarrow> nat option" where
  "HttpSession_getAttribute sid name sessions =
     (case sessions sid of None \<Rightarrow> None | Some attributes \<Rightarrow> attributes name)"

subsection \<open>The request and its session\<close>

datatype HttpRequestMethod =
  UNKNOWN_METHOD | GET_METHOD | POST_METHOD | PUT_METHOD | DELETE_METHOD

text \<open>
  The members of the class that hold text, maps and the method. The pointers to the
  client socket and to the multipart parser are left out: no operation below reads them.
\<close>

record HttpRequest =
  url :: string
  origin :: string
  httpAuthUsername :: string
  httpMethod :: HttpRequestMethod
  cookies :: "string \<rightharpoonup> string"
  parameters :: "string \<rightharpoonup> string"
  sessionId :: string
  jsonPayload :: string

text \<open>\<^verbatim>\<open>getCookie(name)\<close> in its one-argument form: the empty string for no such cookie.\<close>

definition getCookie :: "string \<Rightarrow> HttpRequest \<Rightarrow> string" where
  "getCookie name r = (case cookies r name of Some v \<Rightarrow> v | None \<Rightarrow> [])"

definition getParameter :: "string \<Rightarrow> HttpRequest \<Rightarrow> string" where
  "getParameter name r = (case parameters r name of Some v \<Rightarrow> v | None \<Rightarrow> [])"

definition hasParameter :: "string \<Rightarrow> HttpRequest \<Rightarrow> bool" where
  "hasParameter name r = (parameters r name \<noteq> None)"

definition initSessionId :: "HttpRequest \<Rightarrow> HttpRequest" where
  "initSessionId r = r\<lparr>sessionId := []\<rparr>"

definition getSession :: "session_store \<Rightarrow> HttpRequest \<Rightarrow> HttpRequest" where
  "getSession sessions r =
     (let r = r\<lparr>sessionId := getCookie ''SID'' r\<rparr>
      in if length (sessionId r) \<noteq> 0 \<and> HttpSession_find (sessionId r) sessions then r
         else initSessionId r)"

definition isSessionValid :: "HttpRequest \<Rightarrow> bool" where
  "isSessionValid r = (sessionId r \<noteq> [])"

text \<open>
  \<^verbatim>\<open>removeSession\<close>: the request and the store after the call. The call passes the
  member \<open>sessionId\<close> to \<^verbatim>\<open>HttpSession::remove\<close> and assigns nothing.
\<close>

definition removeSession :: "HttpRequest \<Rightarrow> session_store \<Rightarrow> HttpRequest \<times> session_store" where
  "removeSession r sessions =
     (if sessionId r = [] then (r, sessions)
      else (r, HttpSession_remove (sessionId r) sessions))"

definition getSessionAttribute :: "string \<Rightarrow> HttpRequest \<Rightarrow> session_store \<Rightarrow> nat option" where
  "getSessionAttribute name r sessions =
     (if sessionId r = [] then None else HttpSession_getAttribute (sessionId r) name sessions)"

text \<open>
  The constructor. \<open>params\<close> and \<open>cookies\<close> are C strings that may be null (\<open>None\<close>); each
  is decoded only when it is neither null nor empty, into a map that starts empty.
\<close>

definition new_HttpRequest ::
  "(nat \<Rightarrow> int) \<Rightarrow> HttpRequestMethod \<Rightarrow> string \<Rightarrow> string option \<Rightarrow> string option \<Rightarrow>
   string \<Rightarrow> string \<Rightarrow> string \<Rightarrow> session_store \<Rightarrow> HttpRequest" where
  "new_HttpRequest unassigned method the_url params the_cookies the_origin username json
     sessions =
     (let r = \<lparr>url = the_url, origin = the_origin, httpAuthUsername = username,
                httpMethod = method, cookies = Map.empty, parameters = Map.empty,
                sessionId = [], jsonPayload = json\<rparr>;
          r = (case params of
                 None \<Rightarrow> r
               | Some p \<Rightarrow> if length p \<noteq> 0
                           then r\<lparr>parameters := decodParams unassigned p (parameters r)\<rparr>
                           else r);
          r = (case the_cookies of
                 None \<Rightarrow> r
               | Some c \<Rightarrow> if length c \<noteq> 0
                           then r\<lparr>cookies := decodCookies c (cookies r)\<rparr> else r)
      in getSession sessions r)"
subsection \<open>The split of the parameters in the words of the spec\<close>

text \<open>
  The spec's second pass, to compare the second loop with: the decoded string is split
  on \<open>&\<close> into segments, the last one with no \<open>&\<close> after it; within a segment the first
  \<open>=\<close> splits the key from the value, and a segment with no \<open>=\<close> has the empty value.
\<close>

fun split_on :: "char \<Rightarrow> string \<Rightarrow> string list" where
  "split_on c [] = [[]]"
| "split_on c (x # xs) =
     (if x = c then [] # split_on c xs
      else (case split_on c xs of [] \<Rightarrow> [[x]] | w # ws \<Rightarrow> (x # w) # ws))"

definition spec_segments :: "string \<Rightarrow> string list" where
  "spec_segments s = split_on CHR ''&'' s"

definition spec_key :: "string \<Rightarrow> string" where
  "spec_key seg = takeWhile (\<lambda>c. c \<noteq> CHR ''='') seg"

definition spec_value :: "string \<Rightarrow> string" where
  "spec_value seg = drop 1 (dropWhile (\<lambda>c. c \<noteq> CHR ''='') seg)"


subsection \<open>The checked decode in the words of the spec\<close>

text \<open>
  The spec asks a reimplementation for a checked decode that fails closed, one that
  treats an incomplete escape as a decode error. To compare the first loop with: the
  same pass over the string, where a \<open>%\<close> that is not followed by a second \<open>%\<close> is
  decoded only when two hexadecimal digits follow it. \<open>TruncatedEscape\<close>: fewer than two
  characters were left after the \<open>%\<close>. \<open>InvalidEscape\<close>: one of the two is not a
  hexadecimal digit.
\<close>

datatype decode_error = TruncatedEscape | InvalidEscape

definition spec_read_hex :: "string \<Rightarrow> decode_error + nat" where
  "spec_read_hex hexChar =
     (case hexChar of
        [a, b] \<Rightarrow>
          (case (hex_digit a, hex_digit b) of
             (Some x, Some y) \<Rightarrow> Inr (16 * x + y)
           | _ \<Rightarrow> Inl InvalidEscape)
      | _ \<Rightarrow> Inl TruncatedEscape)"

function spec_checked_loop1 :: "string \<Rightarrow> nat \<Rightarrow> decode_error + string" where
  "spec_checked_loop1 paramstr start =
     (case find_first_of paramstr ''%+'' start of
        None \<Rightarrow> Inr paramstr
      | Some end \<Rightarrow>
          if paramstr ! end = CHR ''%'' then
            if at paramstr (end + 1) = CHR ''%'' then
              spec_checked_loop1 (erase paramstr (end + 1) 1) (end + 1)
            else
              (case spec_read_hex (substr paramstr (end + 1) 2) of
                 Inl err \<Rightarrow> Inl err
               | Inr specar \<Rightarrow>
                   spec_checked_loop1 (erase (paramstr[end := char_of specar]) (end + 1) 2)
                     (end + 1))
          else spec_checked_loop1 (paramstr[end := CHR '' '']) (end + 1))"
  by pat_completeness auto
termination
  by (relation "measure (\<lambda>(paramstr, start). length paramstr - start)")
     (auto simp: erase_def dest!: find_first_of_bounds)

declare spec_checked_loop1.simps [simp del]
section \<open>The compression wrappers (nvjGzip.h)\<close>

subsection \<open>The zlib stream\<close>

text \<open>
  zlib is a library outside the repository. Its functions are parameters of the model:
  a codec (\<^verbatim>\<open>deflate\<close> or \<^verbatim>\<open>inflate\<close>) is given the internal state of the stream, the
  input bytes on offer (\<open>avail_in\<close> bytes from \<open>next_in\<close>), the room for output
  (\<open>avail_out\<close>) and the flush mode, and answers with its return code, the number of
  input bytes it took, the bytes it produced and the new internal state.
\<close>

datatype flush = Z_NO_FLUSH | Z_SYNC_FLUSH | Z_FINISH

datatype zret =
  Z_OK | Z_STREAM_END | Z_NEED_DICT | Z_STREAM_ERROR | Z_DATA_ERROR | Z_MEM_ERROR | Z_BUF_ERROR

type_synonym 'z codec = "'z \<Rightarrow> string \<Rightarrow> nat \<Rightarrow> flush \<Rightarrow> zret \<times> nat \<times> string \<times> 'z"

text \<open>
  \<^verbatim>\<open>z_stream\<close>. \<open>next_in\<close> is a pointer into the source bytes: the bytes from it on.
  \<open>next_out\<close> is a pointer into the output buffer: an offset.
\<close>

record 'z z_stream =
  next_in :: string
  avail_in :: nat
  next_out :: nat
  avail_out :: nat
  internal :: 'z

definition CHUNK :: nat where
  "CHUNK = 16384"

definition MAX_WBITS :: int where
  "MAX_WBITS = 15"

definition INT_MAX :: nat where
  "INT_MAX = 2147483647"

text \<open>
  A call of the codec on the stream and the output buffer. The stream moves by what the
  codec took and produced, within what was on offer, and the bytes produced are written
  to the buffer at \<open>next_out\<close>.
\<close>

definition zcall ::
  "'z codec \<Rightarrow> 'z z_stream \<Rightarrow> flush \<Rightarrow> string \<Rightarrow> zret \<times> 'z z_stream \<times> string" where
  "zcall f strm fl buf =
     (case f (internal strm) (take (avail_in strm) (next_in strm)) (avail_out strm) fl of
        (ret, taken, produced, st) \<Rightarrow>
          (ret,
           strm\<lparr>next_in := drop (min taken (avail_in strm)) (next_in strm),
                avail_in := avail_in strm - min taken (avail_in strm),
                next_out := next_out strm + length (take (avail_out strm) produced),
                avail_out := avail_out strm - length (take (avail_out strm) produced),
                internal := st\<rparr>,
           memcpy buf (next_out strm) (take (avail_out strm) produced)))"


subsection \<open>The output buffer and the outcomes\<close>

text \<open>
  The pointer \<^verbatim>\<open>*dst\<close>: null, a live block with its bytes, or a block that was freed.
  \<^verbatim>\<open>free\<close> of the null pointer does nothing.
\<close>

datatype ptr = Null | Block string | Freed

fun free :: "ptr \<Rightarrow> ptr" where
  "free Null = Null"
| "free (Block b) = Freed"
| "free Freed = Freed"


text \<open>
  What a call does: it returns a value, or it throws \<^verbatim>\<open>std::runtime_error\<close> with a
  message, or an \<^verbatim>\<open>int\<close> or \<^verbatim>\<open>size_t\<close> computation leaves its range (\<open>Overflow\<close>), after
  which the model says nothing. \<open>Throws\<close> also holds \<^verbatim>\<open>*dst\<close> as it is when the exception
  leaves the function.
\<close>

datatype 'a outcome = Returns 'a | Throws string ptr | Overflow

subsection \<open>One-shot decompression (nvj_gunzip)\<close>

text \<open>
  The loop of \<^verbatim>\<open>nvj_gunzip\<close>, from the state before an iteration: the stream, the
  bytes of the block \<^verbatim>\<open>*dst\<close> and \<open>i\<close>. \<open>alloc_ok n\<close> tells whether an allocation of \<open>n\<close>
  bytes succeeds. The products \<^verbatim>\<open>CHUNK * (i+1)\<close> are taken in \<^verbatim>\<open>int\<close>. Where
  \<^verbatim>\<open>realloc\<close> fails, the source frees its null result and then \<^verbatim>\<open>*dst\<close>.
\<close>

function nvj_gunzip_loop ::
  "'z codec \<Rightarrow> (nat \<Rightarrow> bool) \<Rightarrow> 'z z_stream \<Rightarrow> string \<Rightarrow> nat \<Rightarrow> (nat \<times> string) outcome" where
  "nvj_gunzip_loop inflate alloc_ok strm buf i =
     (if CHUNK * (i + 1) > INT_MAX then Overflow
      else
        (case zcall inflate (strm\<lparr>avail_out := CHUNK, next_out := i * CHUNK\<rparr>) Z_NO_FLUSH buf of
           (ret, strm', buf') \<Rightarrow>
             if ret = Z_STREAM_ERROR then
               Throws ''gunzip : inflate Z_STREAM_ERROR'' (free (Block buf'))
             else if ret = Z_NEED_DICT \<or> ret = Z_DATA_ERROR \<or> ret = Z_MEM_ERROR then
               Throws ''gunzip : inflate error'' (free (Block buf'))
             else if avail_out strm' = 0 then
               (if CHUNK * (i + 1 + 1) > INT_MAX then Overflow
                else if alloc_ok (CHUNK * (i + 1 + 1)) then
                  nvj_gunzip_loop inflate alloc_ok strm' (resize buf' (CHUNK * (i + 1 + 1))) (i + 1)
                else Throws ''gunzip : (re)allocating memory'' (free (Block buf')))
             else Returns (CHUNK * (i + 1) - avail_out strm', buf')))"
  by pat_completeness auto
termination
  by (relation "measure (\<lambda>(inflate, alloc_ok, strm, buf, i). INT_MAX - i)")
     (auto simp: CHUNK_def INT_MAX_def)

declare nvj_gunzip_loop.simps [simp del]

text \<open>
  \<^verbatim>\<open>nvj_gunzip\<close>. \<open>src\<close> is the source pointer, \<open>None\<close> for null, and \<open>sizeSrc\<close> the size
  passed with it. \<open>inflateInit2\<close> is given the window bits and answers with the internal
  state of the stream, or with \<open>None\<close> for a return code other than \<^verbatim>\<open>Z_OK\<close>.
  \<open>avail_in\<close> is an \<^verbatim>\<open>unsigned int\<close>. The block that \<^verbatim>\<open>malloc\<close> returns has \<open>CHUNK\<close> bytes
  of no known value, here zero bytes.
\<close>

definition nvj_gunzip ::
  "(int \<Rightarrow> 'z option) \<Rightarrow> 'z codec \<Rightarrow> (nat \<Rightarrow> bool) \<Rightarrow> string option \<Rightarrow> nat \<Rightarrow> bool \<Rightarrow>
   (nat \<times> string) outcome" where
  "nvj_gunzip inflateInit2 inflate alloc_ok src sizeSrc rawDeflateData =
     (case src of
        None \<Rightarrow> Throws ''gunzip : src == NULL !'' Null
      | Some src_bytes \<Rightarrow>
          (case inflateInit2 (if rawDeflateData then - 15 else 16 + MAX_WBITS) of
             None \<Rightarrow> Throws ''gunzip : inflateInit2 error'' Null
           | Some st \<Rightarrow>
               if \<not> alloc_ok CHUNK then Throws ''gunzip : malloc error (2)'' Null
               else nvj_gunzip_loop inflate alloc_ok
                      \<lparr>next_in = src_bytes, avail_in = sizeSrc mod 2 ^ 32, next_out = 0,
                        avail_out = 0, internal = st\<rparr>
                      (replicate CHUNK NUL) 0))"

subsection \<open>Streaming compression (nvj_gzip_websocket_v2)\<close>







subsection \<open>Streaming compression in the words of the spec\<close>








subsection \<open>A zlib with nothing to do\<close>



definition inflateInit2_ok :: "int \<Rightarrow> unit option" where
  "inflateInit2_ok windowBits = Some ()"

definition alloc_always :: "nat \<Rightarrow> bool" where
  "alloc_always n = True"

definition inflate_no_progress :: "unit codec" where
  "inflate_no_progress st input room fl = (Z_BUF_ERROR, 0, [], st)"

definition inflate_corrupt :: "unit codec" where
  "inflate_corrupt st input room fl = (Z_DATA_ERROR, 0, [], st)"

section \<open>Properties of the multipart field\<close>

lemma AcceptSomeData_text:
  "type f = TextType \<Longrightarrow>
   AcceptSomeData data f fs = Some (Inr (f\<lparr>FieldContent := FieldContent f @ data @ [NUL]\<rparr>, fs))"
  by (simp add: AcceptSomeData_def Let_def resize_def memcpy_def list_update_append nth_append)

lemma AcceptSomeData_type:
  assumes "AcceptSomeData data f fs = Some (Inr (f', fs'))"
  shows "type f' = type f"
proof (cases "type f = TextType")
  case True
  with assms show ?thesis by (auto simp: AcceptSomeData_text)
next
  case False
  with assms show ?thesis
    by (auto simp: AcceptSomeData_def Let_def split: if_splits option.splits prod.splits)
qed

text \<open>
  C1. The claim: the text read back from a text field is the concatenation of all the
  chunks appended, so \<open>ab\<close>, \<open>cd\<close>, \<open>ef\<close> give \<open>abcdef\<close>. The source does not do that:
  \<^verbatim>\<open>AcceptSomeData\<close> takes \<^verbatim>\<open>FieldContent.size()\<close> as the place to copy the next chunk
  to, and that size counts the zero byte written after the previous chunk. The buffer
  after the three calls is \<open>ab\<close>, 0, \<open>cd\<close>, 0, \<open>ef\<close>, 0, and \<^verbatim>\<open>GetTextTypeContent\<close>, which
  reads up to the first zero byte, returns \<open>ab\<close>.
\<close>

theorem C1_text_chunks_first_only:
  "AcceptChunks [''ab'', ''cd'', ''ef''] (new_Field w\<lparr>type := TextType\<rparr>) fs =
     Some (Inr (new_Field w\<lparr>type := TextType,
       FieldContent := ''ab'' @ [NUL] @ ''cd'' @ [NUL] @ ''ef'' @ [NUL]\<rparr>, fs))
   \<and> GetTextTypeContent (new_Field w\<lparr>type := TextType,
       FieldContent := ''ab'' @ [NUL] @ ''cd'' @ [NUL] @ ''ef'' @ [NUL]\<rparr>) = Inr ''ab''"
  by (simp add: AcceptSomeData_text new_Field_def GetTextTypeContent_def c_string_def NUL_def
      TextType_def)

text \<open>
  C10. The claim: the type tag is fixed once set, and not even a second set-type call
  with the other valid type changes it. \<^verbatim>\<open>SetType\<close> has no such guard: it stores every
  valid argument. A field set to text and then to file is a file field.
\<close>

theorem C10_second_SetType_changes_tag:
  "SetType TextType (new_Field 0) = Inr (new_Field 0\<lparr>type := TextType\<rparr>)
   \<and> SetType FileType (new_Field 0\<lparr>type := TextType\<rparr>) = Inr (new_Field 0\<lparr>type := FileType\<rparr>)
   \<and> GetType (new_Field 0\<lparr>type := TextType\<rparr>) = Inr TextType
   \<and> GetType (new_Field 0\<lparr>type := FileType\<rparr>) = Inr FileType
   \<and> TextType \<noteq> FileType"
  by (simp add: SetType_def GetType_def new_Field_def TextType_def FileType_def)

text \<open>
  C10, as amended. The tag is changed by \<^verbatim>\<open>SetType\<close> only: a call with the text or the
  file tag succeeds and stores its argument, whatever the tag was before; a call with
  any other value throws; a call of \<^verbatim>\<open>AcceptSomeData\<close> that returns, and every other
  setter, leaves the tag as it was.
\<close>

theorem C10_tag_changed_by_SetType_only:
  "(t = TextType \<or> t = FileType \<longrightarrow> SetType t f = Inr (f\<lparr>type := t\<rparr>))
   \<and> (t \<noteq> TextType \<and> t \<noteq> FileType \<longrightarrow> (\<exists>e. SetType t f = Inl e))
   \<and> (\<forall>f' fs'. AcceptSomeData data f fs = Some (Inr (f', fs')) \<longrightarrow> type f' = type f)
   \<and> type (SetTempDir dir f) = type f
   \<and> type (SetFileName name f) = type f
   \<and> type (SetUploadedFilesStorage where_to f) = type f
   \<and> type (SetFileContentType ct f) = type f"
  by (auto simp: SetType_def SetTempDir_def SetFileName_def SetUploadedFilesStorage_def
      SetFileContentType_def dest: AcceptSomeData_type)

theorem C10_tag_changed_by_SetType_only_witness:
  "(FileType = TextType \<or> FileType = FileType)
   \<and> SetType FileType (new_Field 0\<lparr>type := TextType\<rparr>) = Inr (new_Field 0\<lparr>type := FileType\<rparr>)
   \<and> (3 \<noteq> TextType \<and> 3 \<noteq> FileType)
   \<and> (\<exists>e. SetType 3 (new_Field 0\<lparr>type := TextType\<rparr>) = Inl e)
   \<and> AcceptSomeData ''ab'' (new_Field 0\<lparr>type := TextType\<rparr>)
         \<lparr>files = Map.empty, creatable = (\<lambda>p. True)\<rparr> =
       Some (Inr (new_Field 0\<lparr>type := TextType, FieldContent := ''ab'' @ [NUL]\<rparr>,
         \<lparr>files = Map.empty, creatable = (\<lambda>p. True)\<rparr>))
   \<and> type (new_Field 0\<lparr>type := TextType, FieldContent := ''ab'' @ [NUL]\<rparr>) = TextType"
  using C10_tag_changed_by_SetType_only
    [of FileType "new_Field 0\<lparr>type := TextType\<rparr>" "''ab''"
      "\<lparr>files = Map.empty, creatable = (\<lambda>p. True)\<rparr>"]
    C10_tag_changed_by_SetType_only
    [of 3 "new_Field 0\<lparr>type := TextType\<rparr>" "''ab''"
      "\<lparr>files = Map.empty, creatable = (\<lambda>p. True)\<rparr>"]
  by (simp add: AcceptSomeData_text new_Field_def TextType_def FileType_def)

section \<open>Properties of the request\<close>

subsection \<open>Searching and splitting\<close>

lemma index_from_eq:
  "index_from P cs i =
     (if \<exists>c\<in>set cs. P c then Some (i + length (takeWhile (\<lambda>c. \<not> P c) cs)) else None)"
  by (induction cs arbitrary: i) auto

lemma find_char_eq:
  "find_char s c pos =
     (if c \<in> set (drop pos s)
      then Some (pos + length (takeWhile (\<lambda>x. x \<noteq> c) (drop pos s))) else None)"
  by (auto simp: find_char_def index_from_eq)

lemma find_first_of_None:
  "\<forall>c\<in>set s. c \<notin> set chars \<Longrightarrow> find_first_of s chars pos = None"
  by (auto simp: find_first_of_def index_from_eq dest: in_set_dropD)

lemma decodParams_loop1_plain:
  "CHR ''%'' \<notin> set s \<Longrightarrow> CHR ''+'' \<notin> set s \<Longrightarrow> decodParams_loop1 unassigned s start = s"
proof -
  assume "CHR ''%'' \<notin> set s" "CHR ''+'' \<notin> set s"
  then have "find_first_of s ''%+'' start = None"
    by (intro find_first_of_None) auto
  then show ?thesis
    by (subst decodParams_loop1.simps) simp
qed

lemma find_first_of_append:
  "\<forall>c\<in>set s. c \<notin> set chars \<Longrightarrow> x \<in> set chars \<Longrightarrow>
   find_first_of (s @ x # t) chars 0 = Some (length s)"
  by (auto simp: find_first_of_def index_from_eq takeWhile_append1 takeWhile_append2)

lemma decodParams_loop1_bare_percent:
  assumes "CHR ''%'' \<notin> set s" "CHR ''+'' \<notin> set s"
  shows "decodParams_loop1 unassigned (s @ ''%'') 0 = s @ [char_of (unassigned (length s))]"
proof -
  have f: "find_first_of (s @ ''%'') ''%+'' 0 = Some (length s)"
    using assms by (intro find_first_of_append) auto
  have "decodParams_loop1 unassigned (s @ ''%'') 0 =
      decodParams_loop1 unassigned (s @ [char_of (unassigned (length s))]) (length s + 1)"
    by (subst decodParams_loop1.simps)
       (simp add: f at_def NUL_def substr_def extract_hex_def erase_def)
  also have "\<dots> = s @ [char_of (unassigned (length s))]"
    by (subst decodParams_loop1.simps) (simp add: find_first_of_def)
  finally show ?thesis .
qed

lemma decodParams_loop1_percent_one:
  assumes "CHR ''%'' \<notin> set s" "CHR ''+'' \<notin> set s" "x \<noteq> CHR ''%''"
  shows "decodParams_loop1 unassigned (s @ [CHR ''%'', x]) 0 =
     s @ [char_of (case extract_hex [x] of Some v \<Rightarrow> v | None \<Rightarrow> unassigned (length s))]"
proof -
  have f: "find_first_of (s @ [CHR ''%'', x]) ''%+'' 0 = Some (length s)"
    using assms by (intro find_first_of_append) auto
  have "decodParams_loop1 unassigned (s @ [CHR ''%'', x]) 0 =
      decodParams_loop1 unassigned
        (s @ [char_of (case extract_hex [x] of Some v \<Rightarrow> v | None \<Rightarrow> unassigned (length s))])
        (length s + 1)"
    using assms(3)
    by (subst decodParams_loop1.simps)
       (simp add: f at_def substr_def erase_def nth_append)
  also have "\<dots> =
      s @ [char_of (case extract_hex [x] of Some v \<Rightarrow> v | None \<Rightarrow> unassigned (length s))]"
    by (subst decodParams_loop1.simps) (simp add: find_first_of_def)
  finally show ?thesis .
qed

lemma spec_checked_loop1_bare_percent:
  assumes "CHR ''%'' \<notin> set s" "CHR ''+'' \<notin> set s"
  shows "spec_checked_loop1 (s @ ''%'') 0 = Inl TruncatedEscape"
proof -
  have "find_first_of (s @ ''%'') ''%+'' 0 = Some (length s)"
    using assms by (intro find_first_of_append) auto
  then show ?thesis
    by (subst spec_checked_loop1.simps)
       (simp add: at_def NUL_def substr_def spec_read_hex_def)
qed

lemma spec_checked_loop1_percent_one:
  assumes "CHR ''%'' \<notin> set s" "CHR ''+'' \<notin> set s" "x \<noteq> CHR ''%''"
  shows "spec_checked_loop1 (s @ [CHR ''%'', x]) 0 = Inl TruncatedEscape"
proof -
  have "find_first_of (s @ [CHR ''%'', x]) ''%+'' 0 = Some (length s)"
    using assms by (intro find_first_of_append) auto
  then show ?thesis
    using assms(3)
    by (subst spec_checked_loop1.simps)
       (simp add: at_def NUL_def substr_def spec_read_hex_def nth_append)
qed

lemma hex_digit_plain:
  "hex_digit c = Some d \<Longrightarrow>
   c \<noteq> NUL \<and> \<not> isspace c \<and> c \<noteq> CHR ''-'' \<and> c \<noteq> CHR ''+'' \<and> c \<noteq> CHR ''%''"
  by (auto simp: hex_digit_def isspace_def NUL_def Let_def split: if_splits)

lemma extract_hex_one_digit: "hex_digit x = Some d \<Longrightarrow> extract_hex [x] = Some (int d)"
  using hex_digit_plain [of x d] by (simp add: extract_hex_def)

lemma extract_hex_space: "isspace x \<Longrightarrow> extract_hex [x] = None"
  by (simp add: extract_hex_def)

lemma extract_hex_two_digits:
  "hex_digit a = Some x \<Longrightarrow> hex_digit b = Some y \<Longrightarrow>
   extract_hex [a, b] = Some (int (16 * x + y))"
  using hex_digit_plain [of a x] hex_digit_plain [of b y] by (simp add: extract_hex_def)

lemma spec_read_hex_extract:
  "spec_read_hex hexChar = Inr v \<Longrightarrow> extract_hex hexChar = Some (int v)"
proof -
  assume r: "spec_read_hex hexChar = Inr v"
  then obtain a b where h: "hexChar = [a, b]"
    by (auto simp: spec_read_hex_def split: list.splits)
  with r obtain x y where "hex_digit a = Some x" "hex_digit b = Some y" "v = 16 * x + y"
    by (auto simp: spec_read_hex_def split: option.splits)
  with h show ?thesis
    by (simp only: extract_hex_two_digits)
qed

lemma spec_checked_loop1_faithful:
  "spec_checked_loop1 p start = Inr r \<Longrightarrow> decodParams_loop1 unassigned p start = r"
proof (induction p start rule: spec_checked_loop1.induct)
  case (1 paramstr start)
  show ?case
  proof (cases "find_first_of paramstr ''%+'' start")
    case None
    with "1.prems" show ?thesis
      by (subst decodParams_loop1.simps, subst (asm) spec_checked_loop1.simps) simp
  next
    case (Some e)
    show ?thesis
    proof (cases "paramstr ! e = CHR ''%''")
      case False
      with Some "1.prems" have "spec_checked_loop1 (paramstr[e := CHR '' '']) (e + 1) = Inr r"
        by (subst (asm) spec_checked_loop1.simps) simp
      from "1.IH"(3) [OF Some False this] Some False show ?thesis
        by (subst decodParams_loop1.simps) simp
    next
      case True
      show ?thesis
      proof (cases "at paramstr (e + 1) = CHR ''%''")
        case pp: True
        with Some True "1.prems" have "spec_checked_loop1 (erase paramstr (e + 1) 1) (e + 1) = Inr r"
          by (subst (asm) spec_checked_loop1.simps) simp
        from "1.IH"(1) [OF Some True pp this] Some True pp show ?thesis
          by (subst decodParams_loop1.simps) simp
      next
        case np: False
        from Some True np "1.prems" obtain v
          where v: "spec_read_hex (substr paramstr (e + 1) 2) = Inr v"
            and rec: "spec_checked_loop1 (erase (paramstr[e := char_of v]) (e + 1) 2) (e + 1) = Inr r"
          by (subst (asm) spec_checked_loop1.simps) (auto split: sum.splits)
        from spec_read_hex_extract [OF v]
        have x: "extract_hex (substr paramstr (e + 1) 2) = Some (int v)" .
        from "1.IH"(2) [OF Some True np v rec] Some True np x show ?thesis
          by (subst decodParams_loop1.simps) (simp add: char_of_nat)
      qed
    qed
  qed
qed

lemma index_from_shift:
  "index_from P cs (n + i) = map_option (\<lambda>j. n + j) (index_from P cs i)"
  by (induction cs arbitrary: i) (auto simp flip: add_Suc_right)

lemma find_first_of_shift:
  "find_first_of (a @ b) chars (length a + start) =
     map_option (\<lambda>j. length a + j) (find_first_of b chars start)"
  by (simp add: find_first_of_def index_from_shift)

lemma decodParams_loop1_shift:
  "\<forall>i. unassigned' i = unassigned (length a + i) \<Longrightarrow>
   decodParams_loop1 unassigned (a @ b) (length a + start) =
     a @ decodParams_loop1 unassigned' b start"
proof (induction unassigned' b start rule: decodParams_loop1.induct)
  case (1 unassigned' paramstr start)
  note u = "1.prems"
  show ?case
  proof (cases "find_first_of paramstr ''%+'' start")
    case None
    then show ?thesis
      by (subst decodParams_loop1.simps, subst (2) decodParams_loop1.simps)
         (simp add: find_first_of_shift)
  next
    case (Some e)
    from find_first_of_bounds [OF Some] have e: "e < length paramstr" by simp
    have f: "find_first_of (a @ paramstr) ''%+'' (length a + start) = Some (length a + e)"
      by (simp add: find_first_of_shift Some)
    have n: "(a @ paramstr) ! (length a + e) = paramstr ! e"
      by simp
    have at1: "at (a @ paramstr) (length a + e + 1) = at paramstr (e + 1)"
      by (simp add: at_def nth_append)
    have sub: "substr (a @ paramstr) (length a + e + 1) 2 = substr paramstr (e + 1) 2"
      by (simp add: substr_def)
    have er: "\<And>s k. erase (a @ s) (length a + e + 1) k = a @ erase s (e + 1) k"
      by (simp add: erase_def add.assoc)
    have up: "\<And>c. (a @ paramstr)[length a + e := c] = a @ paramstr[e := c]"
      by (simp add: list_update_append)
    show ?thesis
    proof (cases "paramstr ! e = CHR ''%''")
      case False
      from "1.IH"(3) [OF Some False u]
      have "decodParams_loop1 unassigned (a @ paramstr[e := CHR '' '']) (length a + (e + 1)) =
          a @ decodParams_loop1 unassigned' (paramstr[e := CHR '' '']) (e + 1)" .
      with Some False f n up show ?thesis
        by (subst decodParams_loop1.simps, subst (2) decodParams_loop1.simps)
           (simp add: add.assoc)
    next
      case True
      show ?thesis
      proof (cases "at paramstr (e + 1) = CHR ''%''")
        case pp: True
        from "1.IH"(1) [OF Some True pp u]
        have "decodParams_loop1 unassigned (a @ erase paramstr (e + 1) 1) (length a + (e + 1)) =
            a @ decodParams_loop1 unassigned' (erase paramstr (e + 1) 1) (e + 1)" .
        with Some True pp f n at1 er show ?thesis
          by (subst decodParams_loop1.simps, subst (2) decodParams_loop1.simps)
             (simp add: add.assoc)
      next
        case np: False
        define specar where "specar =
          (case extract_hex (substr paramstr (e + 1) 2) of
             Some v \<Rightarrow> v | None \<Rightarrow> unassigned' e)"
        have specar': "(case extract_hex (substr paramstr (e + 1) 2) of
             Some v \<Rightarrow> v | None \<Rightarrow> unassigned (length a + e)) = specar"
          using u by (simp add: specar_def split: option.splits)
        from "1.IH"(2) [OF Some True np refl specar_def [symmetric, THEN sym] u]
        have "decodParams_loop1 unassigned
              (a @ erase (paramstr[e := char_of specar]) (e + 1) 2) (length a + (e + 1)) =
            a @ decodParams_loop1 unassigned' (erase (paramstr[e := char_of specar]) (e + 1) 2)
              (e + 1)"
          by (simp add: specar_def)
        with Some True np f n at1 er up sub specar' show ?thesis
          by (subst decodParams_loop1.simps, subst (2) decodParams_loop1.simps)
             (simp add: add.assoc Let_def specar_def)
      qed
    qed
  qed
qed

lemma find_first_of_skip:
  "\<forall>c\<in>set a. c \<notin> set chars \<Longrightarrow>
   find_first_of (a @ b) chars 0 = find_first_of (a @ b) chars (length a)"
  by (induction a rule: rev_induct)
     (auto simp: find_first_of_def index_from_eq takeWhile_append2)

lemma decodParams_loop1_skip:
  assumes "CHR ''%'' \<notin> set a" "CHR ''+'' \<notin> set a"
  shows "decodParams_loop1 unassigned (a @ b) 0 =
     a @ decodParams_loop1 (\<lambda>i. unassigned (length a + i)) b 0"
proof -
  have "find_first_of (a @ b) ''%+'' 0 = find_first_of (a @ b) ''%+'' (length a)"
    using assms by (intro find_first_of_skip) auto
  then have "decodParams_loop1 unassigned (a @ b) 0 =
      decodParams_loop1 unassigned (a @ b) (length a + 0)"
    by (subst decodParams_loop1.simps, subst (2) decodParams_loop1.simps) simp
  also have "\<dots> = a @ decodParams_loop1 (\<lambda>i. unassigned (length a + i)) b 0"
    by (rule decodParams_loop1_shift) simp
  finally show ?thesis .
qed

lemma split_on_no_delim: "c \<notin> set a \<Longrightarrow> split_on c a = [a]"
  by (induction a) auto

lemma split_on_append: "c \<notin> set a \<Longrightarrow> split_on c (a @ c # b) = a # split_on c b"
  by (induction a) auto

lemma store_param_spec:
  "store_param seg m = m(spec_key seg \<mapsto> spec_value seg)"
proof (cases "CHR ''='' \<in> set seg")
  case False
  then have all: "\<forall>x\<in>set seg. x \<noteq> CHR ''=''" by blast
  have tw: "takeWhile (\<lambda>c. c \<noteq> CHR ''='') seg = seg"
    using all by (simp only: takeWhile_eq_all_conv)
  have dw: "dropWhile (\<lambda>c. c \<noteq> CHR ''='') seg = []"
    using all by (simp only: dropWhile_eq_Nil_conv)
  have k: "spec_key seg = seg"
    unfolding spec_key_def by (rule tw)
  have v: "spec_value seg = []"
    unfolding spec_value_def dw by (rule drop_Nil)
  from False have f: "find_char seg CHR ''='' 0 = None"
    by (simp add: find_char_eq)
  show ?thesis
    unfolding store_param_def f by (simp only: option.case k v)
next
  case True
  let ?n = "length (takeWhile (\<lambda>c. c \<noteq> CHR ''='') seg)"
  from True have f: "find_char seg CHR ''='' 0 = Some ?n"
    by (simp add: find_char_eq)
  have k: "substr seg 0 ?n = spec_key seg"
    unfolding substr_def spec_key_def drop_0 by (rule takeWhile_eq_take [symmetric])
  have "drop 1 (drop ?n seg) = drop (?n + 1) seg"
    by (simp only: drop_drop add.commute)
  then have v: "substr_from seg (?n + 1) = spec_value seg"
    unfolding substr_from_def spec_value_def by (simp only: dropWhile_eq_drop)
  show ?thesis
    unfolding store_param_def f by (simp only: option.case k v)
qed

lemma loop2_refines:
  "start \<le> length s \<Longrightarrow>
   decodParams_loop2 s start m =
     foldl (\<lambda>m seg. store_param seg m) m (split_on CHR ''&'' (drop start s))"
proof (induction s start m rule: decodParams_loop2.induct)
  case (1 paramstr start parameters)
  let ?rest = "drop start paramstr"
  let ?a = "takeWhile (\<lambda>x. x \<noteq> CHR ''&'') ?rest"
  show ?case
  proof (cases "CHR ''&'' \<in> set ?rest")
    case False
    then have "find_char paramstr CHR ''&'' start = None"
      by (simp add: find_char_eq)
    with False show ?thesis
      by (subst decodParams_loop2.simps) (simp add: split_on_no_delim substr_def)
  next
    case True
    define e where "e = start + length ?a"
    from True have f: "find_char paramstr CHR ''&'' start = Some e"
      by (simp add: find_char_eq e_def)
    from find_char_bounds [OF f] have e: "start \<le> e" "e < length paramstr" by simp_all
    have a: "substr paramstr start (e - start) = ?a"
      by (simp add: substr_def e_def) (metis takeWhile_eq_take)
    have "?rest = ?a @ dropWhile (\<lambda>x. x \<noteq> CHR ''&'') ?rest" by simp
    moreover have "dropWhile (\<lambda>x. x \<noteq> CHR ''&'') ?rest = CHR ''&'' # drop (e + 1) paramstr"
    proof -
      have d: "dropWhile (\<lambda>x. x \<noteq> CHR ''&'') ?rest = drop e paramstr"
        by (simp add: e_def dropWhile_eq_drop add.commute)
      from True have "dropWhile (\<lambda>x. x \<noteq> CHR ''&'') ?rest \<noteq> []"
        by (auto simp: dropWhile_eq_Nil_conv)
      then have "hd (dropWhile (\<lambda>x. x \<noteq> CHR ''&'') ?rest) = CHR ''&''"
        using hd_dropWhile [of "\<lambda>x. x \<noteq> CHR ''&''" ?rest] by simp
      with d e show ?thesis
        by (metis Cons_nth_drop_Suc Suc_eq_plus1 hd_drop_conv_nth)
    qed
    ultimately have r: "?rest = ?a @ CHR ''&'' # drop (e + 1) paramstr" by simp
    have na: "CHR ''&'' \<notin> set ?a"
      by (auto dest: set_takeWhileD)
    have "split_on CHR ''&'' ?rest = ?a # split_on CHR ''&'' (drop (e + 1) paramstr)"
      by (subst r) (rule split_on_append [OF na])
    moreover have "decodParams_loop2 paramstr (e + 1) (store_param ?a parameters) =
        foldl (\<lambda>m seg. store_param seg m) (store_param ?a parameters)
          (split_on CHR ''&'' (drop (e + 1) paramstr))"
      using "1.IH" [OF f] e a by simp
    ultimately show ?thesis
      using f a by (subst decodParams_loop2.simps) simp
  qed
qed

lemma foldl_store_other:
  "\<forall>seg\<in>set segs. spec_key seg \<noteq> k \<Longrightarrow>
   foldl (\<lambda>m seg. store_param seg m) m segs k = m k"
  by (induction segs arbitrary: m) (auto simp: store_param_spec)

lemma foldl_store_last:
  "i < length segs \<Longrightarrow>
   \<forall>j. i < j \<and> j < length segs \<longrightarrow> spec_key (segs ! j) \<noteq> spec_key (segs ! i) \<Longrightarrow>
   foldl (\<lambda>m seg. store_param seg m) m segs (spec_key (segs ! i)) = Some (spec_value (segs ! i))"
proof (induction segs arbitrary: m i)
  case Nil
  then show ?case by simp
next
  case (Cons seg segs)
  show ?case
  proof (cases i)
    case 0
    have "\<forall>s\<in>set segs. spec_key s \<noteq> spec_key seg"
    proof
      fix s assume "s \<in> set segs"
      then obtain j where "j < length segs" "segs ! j = s" by (auto simp: in_set_conv_nth)
      with Cons.prems(2) [rule_format, of "Suc j"] 0 show "spec_key s \<noteq> spec_key seg" by auto
    qed
    then have "foldl (\<lambda>m seg. store_param seg m) (store_param seg m) segs (spec_key seg) =
        store_param seg m (spec_key seg)"
      by (rule foldl_store_other)
    also have "\<dots> = Some (spec_value seg)"
      by (simp add: store_param_spec)
    finally show ?thesis using 0 by simp
  next
    case (Suc i')
    with Cons.prems have "i' < length segs" by simp
    moreover have "\<forall>j. i' < j \<and> j < length segs \<longrightarrow> spec_key (segs ! j) \<noteq> spec_key (segs ! i')"
      using Cons.prems(2) Suc by (auto dest: spec [of _ "Suc j" for j])
    ultimately show ?thesis using Cons.IH Suc by simp
  qed
qed

lemma split_on_no_delim_in: "seg \<in> set (split_on c s) \<Longrightarrow> c \<notin> set seg"
proof (induction s arbitrary: seg)
  case Nil
  then show ?case by simp
next
  case (Cons x xs)
  show ?case
  proof (cases "x = c")
    case True
    with Cons show ?thesis by auto
  next
    case False
    show ?thesis
    proof (cases "split_on c xs")
      case Nil
      with Cons.prems False show ?thesis by simp
    next
      case (Cons w ws)
      with Cons.prems False have "seg = x # w \<or> seg \<in> set ws" by simp
      moreover from Cons have "c \<notin> set w" and "\<And>t. t \<in> set ws \<Longrightarrow> c \<notin> set t"
        using Cons.IH by simp_all
      ultimately show ?thesis using False by auto
    qed
  qed
qed

lemma spec_key_no_eq: "CHR ''='' \<notin> set (spec_key seg)"
  by (auto simp: spec_key_def dest: set_takeWhileD)

lemma spec_key_subset: "set (spec_key seg) \<subseteq> set seg"
  by (auto simp: spec_key_def dest: set_takeWhileD)

lemma spec_value_subset: "set (spec_value seg) \<subseteq> set seg"
  by (auto simp: spec_value_def dest: in_set_dropD set_dropWhileD)

lemma foldl_store_entries:
  assumes "foldl (\<lambda>m seg. store_param seg m) m segs k = Some v"
  shows "m k = Some v \<or> (\<exists>seg\<in>set segs. k = spec_key seg \<and> v = spec_value seg)"
  using assms
proof (induction segs arbitrary: m)
  case Nil
  then show ?case by simp
next
  case (Cons seg segs)
  from Cons.prems have "foldl (\<lambda>m seg. store_param seg m) (store_param seg m) segs k = Some v"
    by simp
  from Cons.IH [OF this] show ?case
    by (auto simp: store_param_spec split: if_splits)
qed

subsection \<open>The claims on the parameters\<close>

lemma decodParams_refines:
  "decodParams unassigned p ps =
     foldl (\<lambda>m seg. m(spec_key seg \<mapsto> spec_value seg)) ps
       (spec_segments (decodParams_loop1 unassigned p 0))"
  by (simp add: decodParams_def loop2_refines spec_segments_def store_param_spec)

lemma decodParams_entries:
  assumes "decodParams unassigned p Map.empty k = Some v"
  shows "CHR ''&'' \<notin> set k \<and> CHR ''='' \<notin> set k \<and> CHR ''&'' \<notin> set v"
proof -
  let ?s = "decodParams_loop1 unassigned p 0"
  from assms have "foldl (\<lambda>m seg. store_param seg m) Map.empty (split_on CHR ''&'' ?s) k = Some v"
    by (simp add: decodParams_def loop2_refines)
  from foldl_store_entries [OF this] obtain seg
    where seg: "seg \<in> set (split_on CHR ''&'' ?s)" "k = spec_key seg" "v = spec_value seg"
    by auto
  from split_on_no_delim_in [OF seg(1)] have "CHR ''&'' \<notin> set seg" .
  with seg(2,3) spec_key_subset [of seg] spec_value_subset [of seg]
  have "CHR ''&'' \<notin> set k" and "CHR ''&'' \<notin> set v" by auto
  moreover from seg(2) have "CHR ''='' \<notin> set k" by (simp add: spec_key_no_eq)
  ultimately show ?thesis by simp
qed

lemma takeWhile_first: "c \<notin> set a \<Longrightarrow> takeWhile (\<lambda>x. x \<noteq> c) (a @ c # b) = a"
  by (induction a) auto

lemma dropWhile_first: "c \<notin> set a \<Longrightarrow> dropWhile (\<lambda>x. x \<noteq> c) (a @ c # b) = c # b"
  by (induction a) auto

lemma decodParams_key_value:
  assumes key: "CHR ''%'' \<notin> set key" "CHR ''+'' \<notin> set key" "CHR ''&'' \<notin> set key"
      "CHR ''='' \<notin> set key"
    and d: "d = decodParams_loop1 (\<lambda>i. unassigned (length key + 1 + i)) raw 0"
  shows "decodParams_loop1 unassigned (key @ ''='' @ raw) 0 = key @ ''='' @ d"
    and "CHR ''&'' \<notin> set d \<Longrightarrow> decodParams unassigned (key @ ''='' @ raw) Map.empty = [key \<mapsto> d]"
proof -
  have "decodParams_loop1 unassigned ((key @ ''='') @ raw) 0 =
      (key @ ''='') @ decodParams_loop1 (\<lambda>i. unassigned (length (key @ ''='') + i)) raw 0"
    using key by (intro decodParams_loop1_skip) auto
  then show s: "decodParams_loop1 unassigned (key @ ''='' @ raw) 0 = key @ ''='' @ d"
    by (simp add: d)
  assume "CHR ''&'' \<notin> set d"
  with key have "split_on CHR ''&'' (key @ ''='' @ d) = [key @ ''='' @ d]"
    by (intro split_on_no_delim) auto
  moreover have "spec_key (key @ ''='' @ d) = key"
    using key(4) by (simp add: spec_key_def takeWhile_first)
  moreover have "spec_value (key @ ''='' @ d) = d"
    using key(4) by (simp add: spec_value_def dropWhile_first)
  ultimately show "decodParams unassigned (key @ ''='' @ raw) Map.empty = [key \<mapsto> d]"
    using s by (simp add: decodParams_def loop2_refines store_param_spec)
qed

text \<open>
  C4. The claim: decoding runs in two passes, and a \<open>&\<close> or \<open>=\<close> that the first pass
  decodes inside a value is never taken for a delimiter by the second, so that
  \<open>a=x%26y\<close> gives the one parameter \<open>a\<close> with value \<open>x&y\<close>. The two passes are there, in
  that order, and that is why the claim fails for \<open>&\<close>: the second loop searches the
  decoded string, where the \<open>&\<close> written for \<open>%26\<close> is a character like any other.
\<close>

theorem C4_decoded_amp_is_a_delimiter:
  "decodParams zero_memory ''a=x%26y'' Map.empty = [''a'' \<mapsto> ''x'', ''y'' \<mapsto> '''']
   \<and> [''a'' \<mapsto> ''x'', ''y'' \<mapsto> ''''] ''a'' \<noteq> Some ''x&y''"
proof -
  have "decodParams_loop1 zero_memory ''a=x%26y'' 0 = ''a=x&y''"
    by code_simp
  then show ?thesis
    by (simp add: decodParams_def loop2_refines store_param_spec spec_key_def spec_value_def)
qed

text \<open>
  C4, as amended. Decoding runs in two passes, the percent and plus decoding first,
  then the split on \<open>&\<close> and on the first \<open>=\<close> of each segment; the split works on the
  decoded string. A \<open>=\<close> that the first pass decodes inside a value is not taken for a
  delimiter, since only the first \<open>=\<close> of a segment is one: for a key with none of
  \<open>%\<close>, \<open>+\<close>, \<open>&\<close>, \<open>=\<close> in it and any raw text after its \<open>=\<close> whose decoding \<open>d\<close> has no
  \<open>&\<close>, the result is the one parameter of that key with value \<open>d\<close>, whatever \<open>=\<close> there
  is in \<open>d\<close>; \<open>a=x%3Dy\<close> gives \<open>a\<close> with value \<open>x=y\<close>. A \<open>&\<close> that the first pass decodes
  is a delimiter like one that was there before: whatever the raw string, no key of the
  result holds a \<open>&\<close> or a \<open>=\<close> and no value holds a \<open>&\<close>, so when \<open>d\<close> has a \<open>&\<close> the
  value of the key is not \<open>d\<close>; \<open>a=x%26y\<close> gives the parameters \<open>a\<close> with value \<open>x\<close> and
  \<open>y\<close> with the empty value, as \<open>a=x&y\<close> does.
\<close>

theorem C4_split_runs_on_decoded_string:
  "(decodParams unassigned p Map.empty k = Some v \<longrightarrow>
      CHR ''&'' \<notin> set k \<and> CHR ''='' \<notin> set k \<and> CHR ''&'' \<notin> set v)
   \<and> (CHR ''%'' \<notin> set key \<and> CHR ''+'' \<notin> set key \<and> CHR ''&'' \<notin> set key
        \<and> CHR ''='' \<notin> set key
        \<and> d = decodParams_loop1 (\<lambda>i. unassigned (length key + 1 + i)) raw 0 \<longrightarrow>
        decodParams_loop1 unassigned (key @ ''='' @ raw) 0 = key @ ''='' @ d
        \<and> (CHR ''&'' \<notin> set d \<longrightarrow>
              decodParams unassigned (key @ ''='' @ raw) Map.empty = [key \<mapsto> d])
        \<and> (CHR ''&'' \<in> set d \<longrightarrow>
              decodParams unassigned (key @ ''='' @ raw) Map.empty key \<noteq> Some d))
   \<and> decodParams unassigned ''a=x%3Dy'' Map.empty = [''a'' \<mapsto> ''x=y'']
   \<and> decodParams unassigned ''a=x%26y'' Map.empty = [''a'' \<mapsto> ''x'', ''y'' \<mapsto> '''']
   \<and> decodParams unassigned ''a=x&y'' Map.empty = [''a'' \<mapsto> ''x'', ''y'' \<mapsto> '''']"
proof (intro conjI impI)
  assume "decodParams unassigned p Map.empty k = Some v"
  from decodParams_entries [OF this]
  show "CHR ''&'' \<notin> set k" and "CHR ''='' \<notin> set k" and "CHR ''&'' \<notin> set v"
    by simp_all
next
  assume a: "CHR ''%'' \<notin> set key \<and> CHR ''+'' \<notin> set key \<and> CHR ''&'' \<notin> set key
        \<and> CHR ''='' \<notin> set key
        \<and> d = decodParams_loop1 (\<lambda>i. unassigned (length key + 1 + i)) raw 0"
  then have key: "CHR ''%'' \<notin> set key" "CHR ''+'' \<notin> set key" "CHR ''&'' \<notin> set key"
      "CHR ''='' \<notin> set key"
    and d: "d = decodParams_loop1 (\<lambda>i. unassigned (length key + 1 + i)) raw 0"
    by simp_all
  from decodParams_key_value(1) [OF key d]
  show "decodParams_loop1 unassigned (key @ ''='' @ raw) 0 = key @ ''='' @ d" .
  {
    assume "CHR ''&'' \<notin> set d"
    from decodParams_key_value(2) [OF key d this]
    show "decodParams unassigned (key @ ''='' @ raw) Map.empty = [key \<mapsto> d]" .
  }
  {
    assume in_d: "CHR ''&'' \<in> set d"
    show "decodParams unassigned (key @ ''='' @ raw) Map.empty key \<noteq> Some d"
    proof
      assume "decodParams unassigned (key @ ''='' @ raw) Map.empty key = Some d"
      from decodParams_entries [OF this] in_d show False by simp
    qed
  }
next
  have "decodParams_loop1 unassigned ''a=x%3Dy'' 0 = ''a=x=y''"
    by code_simp
  then show "decodParams unassigned ''a=x%3Dy'' Map.empty = [''a'' \<mapsto> ''x=y'']"
    by (simp add: decodParams_def loop2_refines store_param_spec spec_key_def spec_value_def)
next
  have "decodParams_loop1 unassigned ''a=x%26y'' 0 = ''a=x&y''"
    by code_simp
  then show "decodParams unassigned ''a=x%26y'' Map.empty = [''a'' \<mapsto> ''x'', ''y'' \<mapsto> '''']"
    by (simp add: decodParams_def loop2_refines store_param_spec spec_key_def spec_value_def)
next
  have "decodParams_loop1 unassigned ''a=x&y'' 0 = ''a=x&y''"
    by code_simp
  then show "decodParams unassigned ''a=x&y'' Map.empty = [''a'' \<mapsto> ''x'', ''y'' \<mapsto> '''']"
    by (simp add: decodParams_def loop2_refines store_param_spec spec_key_def spec_value_def)
qed

theorem C4_split_runs_on_decoded_string_witness:
  "decodParams zero_memory ''a=x%26y'' Map.empty ''a'' = Some ''x''
   \<and> CHR ''&'' \<notin> set ''a'' \<and> CHR ''='' \<notin> set ''a'' \<and> CHR ''&'' \<notin> set ''x''
   \<and> CHR ''%'' \<notin> set ''k'' \<and> CHR ''+'' \<notin> set ''k'' \<and> CHR ''&'' \<notin> set ''k''
   \<and> CHR ''='' \<notin> set ''k''
   \<and> ''u=v'' = decodParams_loop1 (\<lambda>i. zero_memory (length ''k'' + 1 + i)) ''u%3Dv'' 0
   \<and> CHR ''&'' \<notin> set ''u=v''
   \<and> decodParams zero_memory ''k=u%3Dv'' Map.empty = [''k'' \<mapsto> ''u=v'']
   \<and> ''u&v'' = decodParams_loop1 (\<lambda>i. zero_memory (length ''k'' + 1 + i)) ''u%26v'' 0
   \<and> CHR ''&'' \<in> set ''u&v''
   \<and> decodParams zero_memory ''k=u%26v'' Map.empty ''k'' \<noteq> Some ''u&v''"
proof -
  have a: "decodParams zero_memory ''a=x%26y'' Map.empty ''a'' = Some ''x''"
    using C4_split_runs_on_decoded_string [of zero_memory "''a=x%26y''" "''a''" "''x''"]
    by simp
  have d1: "decodParams_loop1 (\<lambda>i. zero_memory (length ''k'' + 1 + i)) ''u%3Dv'' 0 = ''u=v''"
    by code_simp
  have d2: "decodParams_loop1 (\<lambda>i. zero_memory (length ''k'' + 1 + i)) ''u%26v'' 0 = ''u&v''"
    by code_simp
  show ?thesis
    using a d1 d2
      C4_split_runs_on_decoded_string [of zero_memory "''a=x%26y''" "''a''" "''x''" "''k''"
        "''u=v''" "''u%3Dv''"]
      C4_split_runs_on_decoded_string [of zero_memory "''a=x%26y''" "''a''" "''x''" "''k''"
        "''u&v''" "''u%26v''"]
    by simp
qed

text \<open>
  C7. The claim: \<open>%25\<close> decodes to \<open>%\<close>, \<open>%%\<close> to \<open>%\<close> and \<open>a+b\<close> to \<open>a b\<close>, and decoding is
  idempotent on its image: decoding a decoded string gives it back. The three examples
  hold. The image of the first pass holds strings with a \<open>%\<close> or a \<open>+\<close> in them, which a
  second decoding changes: \<open>%2541\<close> decodes to \<open>%41\<close>, and \<open>%41\<close> decodes to \<open>A\<close>.
\<close>

theorem C7_decode_not_idempotent:
  "decodParams_loop1 zero_memory ''%2541'' 0 = ''%41''
   \<and> decodParams_loop1 zero_memory ''%41'' 0 = ''A''
   \<and> decodParams_loop1 zero_memory ''%41'' 0 \<noteq> ''%41''"
  by code_simp

text \<open>
  C7, as amended. \<open>%25\<close> decodes to \<open>%\<close>, \<open>%%\<close> to \<open>%\<close> and \<open>a+b\<close> to \<open>a b\<close>; a string with
  no \<open>%\<close> and no \<open>+\<close> in it decodes to itself.
\<close>

theorem C7_decode_examples_and_plain:
  "decodParams_loop1 unassigned ''%25'' 0 = ''%''
   \<and> decodParams_loop1 unassigned ''%%'' 0 = ''%''
   \<and> decodParams_loop1 unassigned ''a+b'' 0 = ''a b''
   \<and> (CHR ''%'' \<notin> set s \<and> CHR ''+'' \<notin> set s \<longrightarrow> decodParams_loop1 unassigned s 0 = s)"
proof (intro conjI impI)
  show "decodParams_loop1 unassigned ''%25'' 0 = ''%''" by code_simp
  show "decodParams_loop1 unassigned ''%%'' 0 = ''%''" by code_simp
  show "decodParams_loop1 unassigned ''a+b'' 0 = ''a b''" by code_simp
next
  assume "CHR ''%'' \<notin> set s \<and> CHR ''+'' \<notin> set s"
  then show "decodParams_loop1 unassigned s 0 = s"
    by (simp add: decodParams_loop1_plain)
qed

theorem C7_decode_examples_and_plain_witness:
  "CHR ''%'' \<notin> set ''a b'' \<and> CHR ''+'' \<notin> set ''a b''
   \<and> decodParams_loop1 zero_memory ''a b'' 0 = ''a b''"
  using C7_decode_examples_and_plain [of zero_memory "''a b''"] by simp

text \<open>
  C8. Parsing \<open>a=1&b=&c\<close> gives exactly \<open>a\<close> with \<open>1\<close>, \<open>b\<close> with the empty value and \<open>c\<close>
  with the empty value; \<open>a=1&a=2\<close> gives exactly \<open>a\<close> with \<open>2\<close>. For every raw string and
  every map to fill, the result is the map after storing, from the first to the last,
  each segment of the decoded string under its key; so a segment whose key no later
  segment has decides the value of that key: a later occurrence overwrites an earlier
  one.
\<close>

theorem C8_params_last_wins:
  "decodParams unassigned ''a=1&b=&c'' Map.empty = [''a'' \<mapsto> ''1'', ''b'' \<mapsto> '''', ''c'' \<mapsto> '''']
   \<and> decodParams unassigned ''a=1&a=2'' Map.empty = [''a'' \<mapsto> ''2'']
   \<and> decodParams unassigned p ps =
       foldl (\<lambda>m seg. m(spec_key seg \<mapsto> spec_value seg)) ps
         (spec_segments (decodParams_loop1 unassigned p 0))
   \<and> (i < length (spec_segments (decodParams_loop1 unassigned p 0))
        \<and> (\<forall>j. i < j \<and> j < length (spec_segments (decodParams_loop1 unassigned p 0)) \<longrightarrow>
              spec_key (spec_segments (decodParams_loop1 unassigned p 0) ! j) \<noteq>
              spec_key (spec_segments (decodParams_loop1 unassigned p 0) ! i))
      \<longrightarrow> decodParams unassigned p ps
             (spec_key (spec_segments (decodParams_loop1 unassigned p 0) ! i)) =
           Some (spec_value (spec_segments (decodParams_loop1 unassigned p 0) ! i)))"
proof (intro conjI impI)
  have "decodParams_loop1 unassigned ''a=1&b=&c'' 0 = ''a=1&b=&c''"
    by (simp add: decodParams_loop1_plain)
  then show "decodParams unassigned ''a=1&b=&c'' Map.empty =
      [''a'' \<mapsto> ''1'', ''b'' \<mapsto> '''', ''c'' \<mapsto> '''']"
    by (simp add: decodParams_def loop2_refines store_param_spec spec_key_def spec_value_def)
next
  have "decodParams_loop1 unassigned ''a=1&a=2'' 0 = ''a=1&a=2''"
    by (simp add: decodParams_loop1_plain)
  then show "decodParams unassigned ''a=1&a=2'' Map.empty = [''a'' \<mapsto> ''2'']"
    by (simp add: decodParams_def loop2_refines store_param_spec spec_key_def spec_value_def)
next
  show "decodParams unassigned p ps =
       foldl (\<lambda>m seg. m(spec_key seg \<mapsto> spec_value seg)) ps
         (spec_segments (decodParams_loop1 unassigned p 0))"
    by (rule decodParams_refines)
next
  let ?segs = "spec_segments (decodParams_loop1 unassigned p 0)"
  assume a: "i < length ?segs
        \<and> (\<forall>j. i < j \<and> j < length ?segs \<longrightarrow> spec_key (?segs ! j) \<noteq> spec_key (?segs ! i))"
  have "decodParams unassigned p ps = foldl (\<lambda>m seg. store_param seg m) ps ?segs"
    by (simp add: decodParams_def loop2_refines spec_segments_def)
  moreover from a have "foldl (\<lambda>m seg. store_param seg m) ps ?segs
      (spec_key (?segs ! i)) = Some (spec_value (?segs ! i))"
    by (intro foldl_store_last) auto
  ultimately show "decodParams unassigned p ps (spec_key (?segs ! i)) =
      Some (spec_value (?segs ! i))"
    by simp
qed

theorem C8_params_last_wins_witness:
  "decodParams_loop1 zero_memory ''a=1&a=2'' 0 = ''a=1&a=2''
   \<and> spec_segments ''a=1&a=2'' = [''a=1'', ''a=2'']
   \<and> spec_key ''a=1'' = ''a'' \<and> spec_key ''a=2'' = ''a'' \<and> spec_value ''a=2'' = ''2''
   \<and> decodParams zero_memory ''a=1&a=2'' Map.empty ''a'' = Some ''2''"
proof -
  have l: "decodParams_loop1 zero_memory ''a=1&a=2'' 0 = ''a=1&a=2''"
    by (simp add: decodParams_loop1_plain)
  have s: "spec_segments ''a=1&a=2'' = [''a=1'', ''a=2'']"
    by (simp add: spec_segments_def)
  have k: "spec_key ''a=1'' = ''a''" "spec_key ''a=2'' = ''a''" "spec_value ''a=2'' = ''2''"
    by (simp_all add: spec_key_def spec_value_def)
  have "decodParams zero_memory ''a=1&a=2'' Map.empty ''a'' = Some ''2''"
    using C8_params_last_wins [of zero_memory "''a=1&a=2''" Map.empty 1]
    unfolding l s by (simp add: k)
  with l s k show ?thesis by simp
qed

text \<open>
  C9. The first loop takes the characters after a \<open>%\<close> with no check that two
  hexadecimal digits are there. For a string that ends in a bare \<open>%\<close> it reads the
  character at the size of the string, which is the terminating zero byte, takes an
  empty \<open>hexChar\<close>, and writes \<open>specar\<close> into the string after an extraction that has
  assigned nothing to it: the last character of the decoded string is the value that
  the memory of \<open>specar\<close> held, which nothing in the program sets, whatever comes before
  the escape. The same holds when the \<open>%\<close> is followed by one white space character.
  For a string that ends in \<open>%\<close> and one hexadecimal digit, the digit alone is taken for
  the escape. The checked decode of the spec has an error for each of these strings,
  and it is a checked form of the source's loop: wherever it returns a string, the
  source's loop returns that string, whatever the memory held.
\<close>

theorem C9_truncated_escape_uses_unassigned_value:
  "(CHR ''%'' \<notin> set s \<and> CHR ''+'' \<notin> set s \<longrightarrow>
      decodParams_loop1 unassigned (s @ ''%'') 0 = s @ [char_of (unassigned (length s))]
      \<and> spec_checked_loop1 (s @ ''%'') 0 = Inl TruncatedEscape
      \<and> (isspace y \<longrightarrow>
            decodParams_loop1 unassigned (s @ [CHR ''%'', y]) 0 =
              s @ [char_of (unassigned (length s))]
            \<and> spec_checked_loop1 (s @ [CHR ''%'', y]) 0 = Inl TruncatedEscape)
      \<and> (hex_digit x = Some d \<longrightarrow>
            decodParams_loop1 unassigned (s @ [CHR ''%'', x]) 0 = s @ [char_of d]
            \<and> spec_checked_loop1 (s @ [CHR ''%'', x]) 0 = Inl TruncatedEscape))
   \<and> (spec_checked_loop1 p 0 = Inr r \<longrightarrow> decodParams_loop1 unassigned p 0 = r)"
proof (intro conjI impI)
  assume s: "CHR ''%'' \<notin> set s \<and> CHR ''+'' \<notin> set s"
  then show "decodParams_loop1 unassigned (s @ ''%'') 0 = s @ [char_of (unassigned (length s))]"
    by (simp add: decodParams_loop1_bare_percent)
  from s show "spec_checked_loop1 (s @ ''%'') 0 = Inl TruncatedEscape"
    by (simp add: spec_checked_loop1_bare_percent)
  {
    assume y: "isspace y"
    then have ny: "y \<noteq> CHR ''%''"
      by (auto simp: isspace_def)
    from s ny show "decodParams_loop1 unassigned (s @ [CHR ''%'', y]) 0 =
        s @ [char_of (unassigned (length s))]"
      by (simp add: decodParams_loop1_percent_one extract_hex_space [OF y])
    from s ny show "spec_checked_loop1 (s @ [CHR ''%'', y]) 0 = Inl TruncatedEscape"
      by (simp add: spec_checked_loop1_percent_one)
  }
  {
    assume x: "hex_digit x = Some d"
    with hex_digit_plain [of x d] have nx: "x \<noteq> CHR ''%''" by simp
    from s nx show "decodParams_loop1 unassigned (s @ [CHR ''%'', x]) 0 = s @ [char_of d]"
      by (simp add: decodParams_loop1_percent_one extract_hex_one_digit [OF x] char_of_nat)
    from s nx show "spec_checked_loop1 (s @ [CHR ''%'', x]) 0 = Inl TruncatedEscape"
      by (simp add: spec_checked_loop1_percent_one)
  }
next
  assume "spec_checked_loop1 p 0 = Inr r"
  then show "decodParams_loop1 unassigned p 0 = r"
    by (rule spec_checked_loop1_faithful)
qed

theorem C9_truncated_escape_uses_unassigned_value_witness:
  "CHR ''%'' \<notin> set ''a='' \<and> CHR ''+'' \<notin> set ''a=''
   \<and> decodParams_loop1 zero_memory ''a=%'' 0 = ''a='' @ [char_of (zero_memory 2)]
   \<and> spec_checked_loop1 ''a=%'' 0 = Inl TruncatedEscape
   \<and> isspace CHR '' ''
   \<and> decodParams_loop1 zero_memory ''a=% '' 0 = ''a='' @ [char_of (zero_memory 2)]
   \<and> hex_digit CHR ''4'' = Some 4
   \<and> decodParams_loop1 zero_memory ''a=%4'' 0 = ''a='' @ [char_of (4 :: nat)]
   \<and> spec_checked_loop1 ''a=%4'' 0 = Inl TruncatedEscape
   \<and> spec_checked_loop1 ''a=%41'' 0 = Inr ''a=A''
   \<and> decodParams_loop1 zero_memory ''a=%41'' 0 = ''a=A''"
proof -
  have h: "hex_digit CHR ''4'' = Some 4"
    by (simp add: hex_digit_def)
  have sp: "isspace CHR '' ''"
    by (simp add: isspace_def)
  have c: "spec_checked_loop1 ''a=%41'' 0 = Inr ''a=A''"
    by code_simp
  show ?thesis
    using C9_truncated_escape_uses_unassigned_value
      [of "''a=''" zero_memory "CHR '' ''" "CHR ''4''" 4 "''a=%41''" "''a=A''"] h sp c
    by (simp add: zero_memory_def)
qed

subsection \<open>The claims on the cookies and the session\<close>

text \<open>
  C3. The claim: cookie decoding adds no entry for a fragment with no \<open>=\<close>, with an
  empty trimmed key, or with an empty value, so \<open>foo=\<close> gives no cookie. The source
  tests \<^verbatim>\<open>theCookie.length()-posEq > 0\<close> for the value; that difference counts the \<open>=\<close>
  itself and is never 0. The fragment \<open>foo=\<close> gives the cookie \<open>foo\<close> with the empty
  value.
\<close>

theorem C3_empty_value_cookie_is_stored:
  "decodCookies ''foo='' Map.empty = [''foo'' \<mapsto> '''']
   \<and> decodCookies ''foo='' Map.empty ''foo'' \<noteq> None"
  by (simp add: decodCookies_def decodCookie_def find_char_def iswgraph_def substr_def at_def)

text \<open>
  C2. The claim: after \<^verbatim>\<open>removeSession\<close> on a request with a session,
  \<^verbatim>\<open>isSessionValid\<close> is false. \<^verbatim>\<open>removeSession\<close> takes the session out of the store and
  leaves the member \<open>sessionId\<close> as it is, and \<^verbatim>\<open>isSessionValid\<close> only compares that
  member with the empty string. For the request built from the cookie \<open>SID=abc\<close> while
  \<open>abc\<close> is a live session, the session is gone from the store after the call and
  \<^verbatim>\<open>isSessionValid\<close> is still true; for every request and store, \<^verbatim>\<open>isSessionValid\<close> is
  after the call what it was before.
\<close>

theorem C2_removeSession_keeps_session_valid:
  "new_HttpRequest unassigned GET_METHOD ''/'' None (Some ''SID=abc'') [] [] []
       [''abc'' \<mapsto> Map.empty] =
     \<lparr>url = ''/'', origin = [], httpAuthUsername = [], httpMethod = GET_METHOD,
       cookies = [''SID'' \<mapsto> ''abc''], parameters = Map.empty, sessionId = ''abc'',
       jsonPayload = []\<rparr>
   \<and> isSessionValid \<lparr>url = ''/'', origin = [], httpAuthUsername = [], httpMethod = GET_METHOD,
       cookies = [''SID'' \<mapsto> ''abc''], parameters = Map.empty, sessionId = ''abc'',
       jsonPayload = []\<rparr>
   \<and> isSessionValid (fst (removeSession
       \<lparr>url = ''/'', origin = [], httpAuthUsername = [], httpMethod = GET_METHOD,
         cookies = [''SID'' \<mapsto> ''abc''], parameters = Map.empty, sessionId = ''abc'',
         jsonPayload = []\<rparr> [''abc'' \<mapsto> Map.empty]))
   \<and> \<not> HttpSession_find ''abc'' (snd (removeSession
       \<lparr>url = ''/'', origin = [], httpAuthUsername = [], httpMethod = GET_METHOD,
         cookies = [''SID'' \<mapsto> ''abc''], parameters = Map.empty, sessionId = ''abc'',
         jsonPayload = []\<rparr> [''abc'' \<mapsto> Map.empty]))
   \<and> isSessionValid (fst (removeSession r sessions)) = isSessionValid r"
  by (simp add: new_HttpRequest_def getSession_def getCookie_def initSessionId_def
      isSessionValid_def removeSession_def HttpSession_find_def HttpSession_remove_def
      decodCookies_def decodCookie_def find_char_def iswgraph_def substr_def at_def)

section \<open>Properties of the compression wrappers\<close>

lemma CHUNK_pos: "0 < CHUNK"
  by (simp add: CHUNK_def)

lemma CHUNK_fits: "\<not> CHUNK * (0 + 1) > INT_MAX"
  by (simp add: CHUNK_def INT_MAX_def)

lemma nvj_gunzip_loop_Throws:
  "nvj_gunzip_loop inflate alloc_ok strm buf i = Throws msg p \<Longrightarrow> p = Freed"
proof (induction inflate alloc_ok strm buf i rule: nvj_gunzip_loop.induct)
  case (1 inflate alloc_ok strm buf i)
  obtain ret strm' buf' where z:
    "zcall inflate (strm\<lparr>avail_out := CHUNK, next_out := i * CHUNK\<rparr>) Z_NO_FLUSH buf =
       (ret, strm', buf')"
    by (cases "zcall inflate (strm\<lparr>avail_out := CHUNK, next_out := i * CHUNK\<rparr>) Z_NO_FLUSH buf")
  show ?case
  proof (cases "\<not> CHUNK * (i + 1) > INT_MAX \<and> ret \<noteq> Z_STREAM_ERROR
      \<and> \<not> (ret = Z_NEED_DICT \<or> ret = Z_DATA_ERROR \<or> ret = Z_MEM_ERROR)
      \<and> avail_out strm' = 0 \<and> \<not> CHUNK * (i + 1 + 1) > INT_MAX \<and> alloc_ok (CHUNK * (i + 1 + 1))")
    case True
    with "1.prems" z have
      "nvj_gunzip_loop inflate alloc_ok strm' (resize buf' (CHUNK * (i + 1 + 1))) (i + 1) =
         Throws msg p"
      by (subst (asm) nvj_gunzip_loop.simps) simp
    with "1.IH" [OF _ z [symmetric]] True show ?thesis by simp
  next
    case False
    with "1.prems" z show ?thesis
      by (subst (asm) nvj_gunzip_loop.simps) (auto split: if_splits)
  qed
qed

lemma nvj_gunzip_Throws:
  "nvj_gunzip inflateInit2 inflate alloc_ok src sizeSrc raw = Throws msg p \<Longrightarrow>
   p = Null \<or> p = Freed"
  by (auto simp: nvj_gunzip_def split: option.splits if_splits dest: nvj_gunzip_loop_Throws)

lemma nvj_gunzip_empty:
  assumes "inflateInit2 (if raw then - 15 else 16 + MAX_WBITS) = Some st"
    and "alloc_ok CHUNK"
    and "inflate st [] CHUNK Z_NO_FLUSH = (ret, taken, [], st')"
    and "ret \<noteq> Z_STREAM_ERROR" "ret \<noteq> Z_NEED_DICT" "ret \<noteq> Z_DATA_ERROR" "ret \<noteq> Z_MEM_ERROR"
  shows "nvj_gunzip inflateInit2 inflate alloc_ok (Some src_bytes) 0 raw =
     Returns (0, replicate CHUNK NUL)"
proof -
  let ?strm = "\<lparr>next_in = src_bytes, avail_in = 0 mod 2 ^ 32, next_out = 0, avail_out = 0,
     internal = st\<rparr>"
  have "zcall inflate (?strm\<lparr>avail_out := CHUNK, next_out := 0 * CHUNK\<rparr>) Z_NO_FLUSH
      (replicate CHUNK NUL) =
    (ret, ?strm\<lparr>avail_out := CHUNK, next_out := 0 * CHUNK, internal := st'\<rparr>, replicate CHUNK NUL)"
    using assms(3) by (simp add: zcall_def memcpy_def)
  then have "nvj_gunzip_loop inflate alloc_ok ?strm (replicate CHUNK NUL) 0 =
      Returns (0, replicate CHUNK NUL)"
    using assms(4-7) CHUNK_pos CHUNK_fits
    by (subst nvj_gunzip_loop.simps) simp
  with assms(1,2) show ?thesis
    by (simp add: nvj_gunzip_def)
qed

subsection \<open>The streaming compress and the run of the codec\<close>


























subsection \<open>The claims on the compression wrappers\<close>



text \<open>
  C6. The claim: the one-shot decompress fails on a null input pointer and on an empty
  input, and every failure path releases the output buffer before the error is
  signaled. The source tests \<^verbatim>\<open>src == NULL\<close> and nothing else: an empty input goes to
  \<^verbatim>\<open>inflate\<close> like any other. A call of \<^verbatim>\<open>inflate\<close> with no input makes no progress and
  returns \<^verbatim>\<open>Z_BUF_ERROR\<close>, which is not one of the four codes the loop throws on, and
  the output has all its room left, so the loop ends and the function returns size 0
  with the block it allocated.
\<close>

theorem C6_gunzip_empty_input_succeeds:
  "nvj_gunzip inflateInit2_ok inflate_no_progress alloc_always (Some []) 0 False =
     Returns (0, replicate CHUNK NUL)"
  by (rule nvj_gunzip_empty [where ret = Z_BUF_ERROR and taken = 0 and st' = "()"])
     (simp_all add: inflateInit2_ok_def alloc_always_def inflate_no_progress_def)

text \<open>
  C6, as amended. With a null input pointer the operation throws, before it allocates
  anything. Whenever the operation throws, the output block is not live: it was never
  allocated or it has been freed. An empty input that is not null is not rejected:
  when \<^verbatim>\<open>inflate\<close>, given no input, produces nothing and returns a code that is none of
  \<^verbatim>\<open>Z_STREAM_ERROR\<close>, \<^verbatim>\<open>Z_NEED_DICT\<close>, \<^verbatim>\<open>Z_DATA_ERROR\<close> and \<^verbatim>\<open>Z_MEM_ERROR\<close>, the operation
  returns size 0.
\<close>

theorem C6_gunzip_null_fails_and_failures_release:
  "nvj_gunzip inflateInit2 inflate alloc_ok None sizeSrc raw = Throws ''gunzip : src == NULL !'' Null
   \<and> (nvj_gunzip inflateInit2 inflate alloc_ok src sizeSrc raw = Throws msg p \<longrightarrow>
        p = Null \<or> p = Freed)
   \<and> (inflateInit2 (if raw then - 15 else 16 + MAX_WBITS) = Some st \<and> alloc_ok CHUNK
        \<and> inflate st [] CHUNK Z_NO_FLUSH = (ret, taken, [], st')
        \<and> ret \<noteq> Z_STREAM_ERROR \<and> ret \<noteq> Z_NEED_DICT \<and> ret \<noteq> Z_DATA_ERROR \<and> ret \<noteq> Z_MEM_ERROR
      \<longrightarrow> nvj_gunzip inflateInit2 inflate alloc_ok (Some src_bytes) 0 raw =
            Returns (0, replicate CHUNK NUL))"
proof (intro conjI impI)
  show "nvj_gunzip inflateInit2 inflate alloc_ok None sizeSrc raw =
      Throws ''gunzip : src == NULL !'' Null"
    by (simp add: nvj_gunzip_def)
next
  assume "nvj_gunzip inflateInit2 inflate alloc_ok src sizeSrc raw = Throws msg p"
  then show "p = Null \<or> p = Freed"
    by (rule nvj_gunzip_Throws)
next
  assume a: "inflateInit2 (if raw then - 15 else 16 + MAX_WBITS) = Some st \<and> alloc_ok CHUNK
        \<and> inflate st [] CHUNK Z_NO_FLUSH = (ret, taken, [], st')
        \<and> ret \<noteq> Z_STREAM_ERROR \<and> ret \<noteq> Z_NEED_DICT \<and> ret \<noteq> Z_DATA_ERROR \<and> ret \<noteq> Z_MEM_ERROR"
  show "nvj_gunzip inflateInit2 inflate alloc_ok (Some src_bytes) 0 raw =
      Returns (0, replicate CHUNK NUL)"
    by (rule nvj_gunzip_empty [where st = st and ret = ret and taken = taken and st' = st'])
       (simp_all add: a)
qed

theorem C6_gunzip_null_fails_and_failures_release_witness:
  "nvj_gunzip inflateInit2_ok inflate_corrupt alloc_always (Some ''x'') 1 False =
     Throws ''gunzip : inflate error'' Freed
   \<and> (Freed = Null \<or> Freed = Freed)
   \<and> inflateInit2_ok (if False then - 15 else 16 + MAX_WBITS) = Some () \<and> alloc_always CHUNK
   \<and> inflate_no_progress () [] CHUNK Z_NO_FLUSH = (Z_BUF_ERROR, 0, [], ())
   \<and> nvj_gunzip inflateInit2_ok inflate_no_progress alloc_always (Some []) 0 False =
       Returns (0, replicate CHUNK NUL)"
proof -
  have c: "\<not> CHUNK * (0 + 1) > INT_MAX" by (rule CHUNK_fits)
  have t: "nvj_gunzip inflateInit2_ok inflate_corrupt alloc_always (Some ''x'') 1 False =
     Throws ''gunzip : inflate error'' Freed"
    using c
    by (simp add: nvj_gunzip_def inflateInit2_ok_def alloc_always_def)
       (subst nvj_gunzip_loop.simps, simp add: zcall_def inflate_corrupt_def)
  show ?thesis
    using C6_gunzip_null_fails_and_failures_release
      [of inflateInit2_ok inflate_corrupt alloc_always 1 False "Some ''x''"
        "''gunzip : inflate error''" Freed "()" Z_BUF_ERROR 0 "()" "[]"]
      C6_gunzip_null_fails_and_failures_release
      [of inflateInit2_ok inflate_no_progress alloc_always 0 False "Some []"
        "''gunzip : inflate error''" Freed "()" Z_BUF_ERROR 0 "()" "[]"]
      t
    by (simp add: inflateInit2_ok_def alloc_always_def inflate_no_progress_def)
qed

end
